theory Spec2Isabelle
  imports Complex_Main
begin

section \<open>Errors\<close>

text \<open>The exceptions the sampler and the model can raise.\<close>

datatype error =
  ZeroDivisionError | RuntimeError | FileNotFoundError | ValueError | IndexError

section \<open>Python and tensor primitives\<close>

text \<open>
  The frame count and the audio indices are computed in double precision, and the
  rounding decides some of them, so these computations carry it. A double is given
  by a fraction of two integers that has its value, the denominator positive. The
  range of the exponent is left out: the magnitudes of this program stay far inside
  it. The other numbers of the program (features, targets and losses) are real
  numbers here.
\<close>

text \<open>The number of binary digits of a positive integer, \<open>int.bit_length\<close>.\<close>

function bit_length :: "int \<Rightarrow> nat" where
  "bit_length n = (if n \<le> 0 then 0 else Suc (bit_length (n div 2)))"
  by pat_completeness auto
termination
  by (relation "measure nat") auto

declare bit_length.simps [simp del]

text \<open>The integer nearest to \<open>p / q\<close> for a positive \<open>q\<close>, a tie going to the even one.\<close>

definition rnd_half_even :: "int \<Rightarrow> int \<Rightarrow> int" where
  "rnd_half_even p q =
     (let f = p div q; r = p mod q
      in if 2 * r < q then f else if q < 2 * r then f + 1 else if even f then f else f + 1)"

type_synonym double = "int \<times> int"

definition dval :: "double \<Rightarrow> real" where
  "dval x = real_of_int (fst x) / real_of_int (snd x)"

text \<open>
  For positive \<open>p\<close> and \<open>q\<close>, the exponent \<open>E\<close> with \<open>2 ^ E \<le> p / q < 2 ^ (E + 1)\<close>.
\<close>

definition ilog2 :: "int \<Rightarrow> int \<Rightarrow> int" where
  "ilog2 p q =
     (let D = int (bit_length p) - int (bit_length q)
      in if p * 2 ^ nat (- D) < q * 2 ^ nat D then D - 1 else D)"

text \<open>
  The double nearest to \<open>p / q\<close>, for positive \<open>p\<close> and \<open>q\<close>: the quotient is scaled by
  a power of two to a mantissa between \<open>2 ^ 52\<close> and \<open>2 ^ 53\<close>, which is rounded.
  \<open>fl_div\<close> adds the sign and zero. It is the division of two Python integers, and
  the rounding of every operation on doubles.
\<close>

definition fl_pos :: "int \<Rightarrow> int \<Rightarrow> double" where
  "fl_pos p q =
     (let e = ilog2 p q - 52
      in (rnd_half_even (p * 2 ^ nat (- e)) (q * 2 ^ nat e) * 2 ^ nat e, 2 ^ nat (- e)))"

definition fl_div :: "int \<Rightarrow> int \<Rightarrow> double" where
  "fl_div p q =
     (if p = 0 then (0, 1)
      else case fl_pos \<bar>p\<bar> \<bar>q\<bar> of (n, d) \<Rightarrow> (sgn p * sgn q * n, d))"

text \<open>
  An integer operand of a float operation is converted first; product and sum are
  the exact ones, rounded.
\<close>

definition float_of_int :: "int \<Rightarrow> double" where
  "float_of_int i = fl_div i 1"

definition float_mul :: "double \<Rightarrow> double \<Rightarrow> double" where
  "float_mul x y = fl_div (fst x * fst y) (snd x * snd y)"

definition float_add :: "double \<Rightarrow> double \<Rightarrow> double" where
  "float_add x y = fl_div (fst x * snd y + fst y * snd x) (snd x * snd y)"

text \<open>\<open>int(x)\<close> of a float truncates toward zero.\<close>

definition py_int :: "double \<Rightarrow> int" where
  "py_int x = (case x of (n, d) \<Rightarrow> if 0 \<le> n then n div d else - ((- n) div d))"

text \<open>
  The global random source, as the sequence of raw values it will hand out, the
  next one at position 0. \<open>random.randint(a, b)\<close> consumes one of them and returns
  an integer between \<open>a\<close> and \<open>b\<close>, both included.
\<close>

type_synonym rng = "nat \<Rightarrow> nat"

definition randint :: "int \<Rightarrow> int \<Rightarrow> rng \<Rightarrow> int \<times> rng" where
  "randint a b g = (a + int (g 0) mod (b - a + 1), (\<lambda>n. g (Suc n)))"

text \<open>
  A tensor of two dimensions is the list of its rows. \<open>torch.roll(x, s, dims=0)\<close>
  moves row \<open>j\<close> to row \<open>(j + s) mod n\<close>, so that row \<open>j\<close> of the result is row
  \<open>(j - s) mod n\<close> of \<open>x\<close>.
\<close>

definition torch_roll :: "'a list \<Rightarrow> int \<Rightarrow> 'a list" where
  "torch_roll x s = (if x = [] then [] else rotate (nat ((- s) mod int (length x))) x)"

text \<open>
  The slice \<open>x[lo:hi]\<close>: a negative bound counts from the end, and bounds beyond the
  list are clipped; a slice never raises.
\<close>

definition py_slice :: "'a list \<Rightarrow> int \<Rightarrow> int \<Rightarrow> 'a list" where
  "py_slice x lo hi =
     (let n = int (length x);
          l = (if lo < 0 then max (lo + n) 0 else min lo n);
          h = (if hi < 0 then max (hi + n) 0 else min hi n)
      in take (nat (h - l)) (drop (nat l) x))"

text \<open>Cutting a list into consecutive pieces of \<open>n\<close> elements each.\<close>

definition chunks :: "nat \<Rightarrow> 'a list \<Rightarrow> 'a list list" where
  "chunks n xs = map (\<lambda>k. take n (drop (k * n) xs)) [0..<length xs div n]"

text \<open>
  \<open>.view(a, b, c, d)\<close> of a tensor given by its rows: the elements, in row-major
  order, are regrouped; the number of elements must be \<open>a * b * c * d\<close>.
\<close>

definition view4 ::
  "nat \<times> nat \<times> nat \<times> nat \<Rightarrow> 'a list list \<Rightarrow> error + 'a list list list list" where
  "view4 s rows =
     (case s of (a, b, c, d) \<Rightarrow>
        (let elems = concat rows
         in if length elems = a * b * c * d
            then Inr (chunks b (chunks c (chunks d elems)))
            else Inl RuntimeError))"

text \<open>\<open>.view(-1, n)\<close> of a flat array: its length must be a multiple of \<open>n\<close>.\<close>

definition view_rows :: "nat \<Rightarrow> 'a list \<Rightarrow> error + 'a list list" where
  "view_rows n flat =
     (if n = 0 \<or> length flat mod n \<noteq> 0 then Inl RuntimeError else Inr (chunks n flat))"

definition torch_zeros :: "nat \<Rightarrow> nat \<Rightarrow> real list list" where
  "torch_zeros r c = replicate r (replicate c 0)"

subsection \<open>Strings and paths\<close>

fun str_nat :: "nat \<Rightarrow> string" where
  "str_nat n =
     (if n < 10 then [''0123456789'' ! n]
      else str_nat (n div 10) @ [''0123456789'' ! (n mod 10)])"

declare str_nat.simps [simp del]

text \<open>
  \<open>'{:05d}'.format(n)\<close>: the decimal digits, padded with zeros after the sign to a
  width of five; a longer number is not cut.
\<close>

definition format_05d :: "int \<Rightarrow> string" where
  "format_05d n =
     (let sign = (if n < 0 then ''-'' else []);
          digits = str_nat (nat \<bar>n\<bar>)
      in sign @ replicate (5 - length sign - length digits) CHR ''0'' @ digits)"

text \<open>\<open>os.path.join\<close> on a POSIX system.\<close>

definition path_join2 :: "string \<Rightarrow> string \<Rightarrow> string" where
  "path_join2 a b =
     (if take 1 b = ''/'' then b
      else if a = [] \<or> drop (length a - 1) a = ''/'' then a @ b
      else a @ ''/'' @ b)"

definition os_path_join :: "string \<Rightarrow> string list \<Rightarrow> string" where
  "os_path_join a ps = foldl path_join2 a ps"

section \<open>Data: the feature sequence and the sampler\<close>

definition OUTPUT_COUNT :: nat where
  "OUTPUT_COUNT = 8320 * 3"

record 'a Data =
  preview :: bool
  shiftRandom :: bool
  count :: int
  MFCC :: "'a list list"
  MFCCLen :: int

text \<open>The literal \<open>29.97\<close>.\<close>

definition animFPS :: double where
  "animFPS = fl_div 2997 100"

text \<open>
  \<open>Data.__init__\<close>. The audio library is outside the program: \<open>loaded\<close> is the number
  of samples per channel and the sample rate that \<open>torchaudio.load\<close> returned,
  \<open>resample r n\<close> the number of samples of a waveform of \<open>n\<close> samples at rate \<open>r\<close>
  once resampled to 16 kHz, and \<open>mfcc\<close> the rows that \<open>kaldi.mfcc\<close> computed.
\<close>

definition Data_init ::
  "bool \<Rightarrow> string option \<Rightarrow> nat \<times> nat \<Rightarrow> (nat \<Rightarrow> nat \<Rightarrow> nat) \<Rightarrow> 'a list list \<Rightarrow> 'a Data" where
  "Data_init shiftRandomArg validationAudioPath loaded resample mfcc =
     (let isPreview = (validationAudioPath \<noteq> None);
          (size1, sampleRate) =
             (case loaded of (n, r) \<Rightarrow> if r \<noteq> 16000 then (resample r n, 16000) else (n, r))
      in \<lparr> preview = isPreview,
           shiftRandom = (shiftRandomArg \<and> \<not> isPreview),
           count = py_int (float_mul animFPS (fl_div (int size1) (int sampleRate))),
           MFCC = mfcc,
           MFCCLen = int (length mfcc) \<rparr>)"

definition len :: "'a Data \<Rightarrow> int" where
  "len d = (if preview d then count d else count d - 1)"

subsection \<open>The sampler\<close>

text \<open>
  \<open>int(i * (self.MFCCLen / self.count) + randomShift)\<close>, in double precision; the
  division raises when the frame count is zero.
\<close>

definition audioIdx :: "'a Data \<Rightarrow> int \<Rightarrow> int \<Rightarrow> error + int" where
  "audioIdx d i randomShift =
     (if count d = 0 then Inl ZeroDivisionError
      else Inr (py_int (float_add
                  (float_mul (float_of_int i) (fl_div (MFCCLen d) (count d)))
                  (float_of_int randomShift))))"

text \<open>
  The 64 rows around an index taken from two rotations of the sequence: the first 32
  rows of the sequence rolled by \<open>32 - a\<close>, then the first 32 rows of the sequence
  rolled by \<open>- a\<close>.
\<close>

definition rollWindow :: "'a list list \<Rightarrow> int \<Rightarrow> 'a list list" where
  "rollWindow m a = take 32 (torch_roll m ((a * -1) + 32)) @ take 32 (torch_roll m (a * -1))"

definition inputValue_of :: "'a Data \<Rightarrow> int \<Rightarrow> int \<Rightarrow> error + 'a list list list list" where
  "inputValue_of d audioIdxRoll audioIdxRollPair =
     (if audioIdxRoll < 32 \<or> audioIdxRollPair < 32
         \<or> audioIdxRoll + 32 > MFCCLen d \<or> audioIdxRollPair + 32 > MFCCLen d
      then view4 (2, 1, 64, 32)
             (rollWindow (MFCC d) audioIdxRoll @ rollWindow (MFCC d) audioIdxRollPair)
      else view4 (2, 1, 64, 32)
             (py_slice (MFCC d) (audioIdxRoll - 32) (audioIdxRoll + 32)
              @ py_slice (MFCC d) (audioIdxRollPair - 32) (audioIdxRollPair + 32)))"

text \<open>
  The files of the target frames: a path either holds a flat array or does not exist.
  \<open>np.load\<close> raises on a path that does not exist.
\<close>

type_synonym files = "string \<Rightarrow> real list option"

definition np_load :: "files \<Rightarrow> string \<Rightarrow> error + real list" where
  "np_load fs p = (case fs p of None \<Rightarrow> Inl FileNotFoundError | Some a \<Rightarrow> Inr a)"

definition maskPath :: "string \<Rightarrow> int \<Rightarrow> string" where
  "maskPath ROOT_PATH n =
     os_path_join ROOT_PATH
       [''data'', ''samSoar'', ''maskSeq'', ''mask.'' @ format_05d n @ ''.npy'']"

text \<open>
  The two target frames of sampler index \<open>i\<close>, with the paths given to \<open>np.load\<close> in
  the order of the calls: the second file is not touched when the first is missing.
\<close>

definition targetValue_of :: "string \<Rightarrow> files \<Rightarrow> int \<Rightarrow> string list \<times> (error + real list list)" where
  "targetValue_of ROOT_PATH fs i =
     (let p1 = maskPath ROOT_PATH (i + 1)
      in case np_load fs p1 of
           Inl e \<Rightarrow> ([p1], Inl e)
         | Inr a \<Rightarrow>
             (let p2 = maskPath ROOT_PATH (i + 2)
              in case np_load fs p2 of
                   Inl e \<Rightarrow> ([p1, p2], Inl e)
                 | Inr b \<Rightarrow> ([p1, p2], view_rows OUTPUT_COUNT (a @ b))))"

text \<open>
  The second component of a sample: the pair of tiles, of shape (2, 1, 64, 32), or in
  preview mode the first tile alone, of shape (1, 64, 32).
\<close>

datatype 'a inputValue = Paired "'a list list list list" | Single "'a list list list"

type_synonym 'a sample = "int list \<times> 'a inputValue \<times> real list list"

text \<open>
  \<open>Data.__getitem__\<close>. The result carries the random source after the call, the paths
  given to \<open>np.load\<close>, and the sample or the exception. The index tensor
  \<open>torch.Tensor([i]).long()\<close> is the one-element list of \<open>i\<close>: the passage through
  single precision is exact for the indices up to \<open>2 ^ 24\<close> that a recording has.
\<close>

definition getitem ::
  "'a Data \<Rightarrow> string \<Rightarrow> files \<Rightarrow> rng \<Rightarrow> int \<Rightarrow> rng \<times> string list \<times> (error + 'a sample)" where
  "getitem d ROOT_PATH fs g i0 =
     (let i = (if i0 < 0 then count d + i0 else i0);
          (randomShift, g') = (if shiftRandom d then randint 0 1 g else (0, g))
      in case audioIdx d i randomShift of
           Inl e \<Rightarrow> (g', [], Inl e)
         | Inr audioIdxRoll \<Rightarrow>
      (case audioIdx d (i + 1) randomShift of
           Inl e \<Rightarrow> (g', [], Inl e)
         | Inr audioIdxRollPair \<Rightarrow>
      (case inputValue_of d audioIdxRoll audioIdxRollPair of
           Inl e \<Rightarrow> (g', [], Inl e)
         | Inr inputValue \<Rightarrow>
             if preview d
             then (g', [],
                   case inputValue of
                     [] \<Rightarrow> Inl IndexError
                   | w # _ \<Rightarrow> Inr ([i], Single w, torch_zeros 1 OUTPUT_COUNT))
             else (case targetValue_of ROOT_PATH fs i of
                     (reads, Inl e) \<Rightarrow> (g', reads, Inl e)
                   | (reads, Inr targetValue) \<Rightarrow>
                       (g', reads,
                        Inr ([i], Paired inputValue,
                             map (map (\<lambda>x. x * 0.5)) targetValue))))))"

text \<open>
  The feature sequence as \<open>Data.__init__\<close> leaves it: \<open>MFCCLen\<close> is its number of
  rows, and every row holds the 32 cepstral coefficients asked of \<open>kaldi.mfcc\<close>.
\<close>

definition features_ok :: "'a Data \<Rightarrow> bool" where
  "features_ok d =
     (MFCCLen d = int (length (MFCC d)) \<and> list_all (\<lambda>r. length r = 32) (MFCC d))"

text \<open>
  The window of the specification: the 64 rows from \<open>a - 32\<close> up to \<open>a + 32\<close>,
  \<open>a + 32\<close> excluded, each row index taken modulo the length of the sequence.
\<close>

definition circularWindow :: "'a list list \<Rightarrow> int \<Rightarrow> 'a list list" where
  "circularWindow m a = map (\<lambda>j. m ! nat ((a - 32 + int j) mod int (length m))) [0..<64]"

text \<open>
  The name of the specification for a frame number: its five decimal digits, the
  leading ones zero.
\<close>

definition zero_padded5 :: "nat \<Rightarrow> string" where
  "zero_padded5 n = map (\<lambda>k. ''0123456789'' ! ((n div 10 ^ k) mod 10)) [4, 3, 2, 1, 0]"

text \<open>Shapes of nested lists.\<close>

definition shape2 :: "'a list list \<Rightarrow> nat \<times> nat \<Rightarrow> bool" where
  "shape2 t s = (case s of (a, b) \<Rightarrow> length t = a \<and> list_all (\<lambda>r. length r = b) t)"

definition shape3 :: "'a list list list \<Rightarrow> nat \<times> nat \<times> nat \<Rightarrow> bool" where
  "shape3 t s = (case s of (a, r) \<Rightarrow> length t = a \<and> list_all (\<lambda>x. shape2 x r) t)"

definition shape4 :: "'a list list list list \<Rightarrow> nat \<times> nat \<times> nat \<times> nat \<Rightarrow> bool" where
  "shape4 t s = (case s of (a, r) \<Rightarrow> length t = a \<and> list_all (\<lambda>x. shape3 x r) t)"

section \<open>Model: the encoder's layers and their output shapes\<close>

text \<open>
  A layer of \<open>nn.Sequential\<close>. \<open>Conv2d cin cout kernel stride padding dilation\<close>
  keeps the argument order of \<open>nn.Conv2d\<close>; a pair is (height, width).
\<close>

datatype layer =
    Conv2d nat nat "nat \<times> nat" "nat \<times> nat" "nat \<times> nat" nat
  | BatchNorm2d nat
  | LeakyReLU

text \<open>
  Output extent of a convolution along one axis:
  \<open>floor ((n + 2 p - d (k - 1) - 1) / s) + 1\<close>; a kernel larger than the padded
  input is an error.
\<close>

definition conv_out :: "nat \<Rightarrow> nat \<Rightarrow> nat \<Rightarrow> nat \<Rightarrow> nat \<Rightarrow> error + nat" where
  "conv_out n k s p d =
     (if s = 0 \<or> k = 0 \<or> n + 2 * p < d * (k - 1) + 1 then Inl RuntimeError
      else Inr ((n + 2 * p - (d * (k - 1) + 1)) div s + 1))"

text \<open>
  The shape a layer gives to an input of shape (batch, channels, height, width).
  In training mode batch normalisation refuses a single value per channel.
\<close>

fun layer_shape ::
  "bool \<Rightarrow> layer \<Rightarrow> nat \<times> nat \<times> nat \<times> nat \<Rightarrow> error + nat \<times> nat \<times> nat \<times> nat" where
  "layer_shape training (Conv2d cin cout (kh, kw) (sh, sw) (ph, pw) d) (b, c, h, w) =
     (if c \<noteq> cin then Inl RuntimeError
      else case conv_out h kh sh ph d of
             Inl e \<Rightarrow> Inl e
           | Inr h' \<Rightarrow> (case conv_out w kw sw pw d of
                          Inl e \<Rightarrow> Inl e
                        | Inr w' \<Rightarrow> Inr (b, cout, h', w')))"
| "layer_shape training (BatchNorm2d n) (b, c, h, w) =
     (if c \<noteq> n then Inl RuntimeError
      else if training \<and> b * h * w = 1 then Inl ValueError
      else Inr (b, c, h, w))"
| "layer_shape training LeakyReLU s = Inr s"

fun sequential_shape ::
  "bool \<Rightarrow> layer list \<Rightarrow> nat \<times> nat \<times> nat \<times> nat \<Rightarrow> error + nat \<times> nat \<times> nat \<times> nat" where
  "sequential_shape training [] s = Inr s"
| "sequential_shape training (l # ls) s =
     (case layer_shape training l s of
        Inl e \<Rightarrow> Inl e
      | Inr s' \<Rightarrow> sequential_shape training ls s')"

definition formantAnalysis :: "layer list" where
  "formantAnalysis =
     [Conv2d 1 72 (1, 3) (1, 2) (0, 1) 1, BatchNorm2d 72, LeakyReLU,
      Conv2d 72 108 (1, 3) (1, 2) (0, 1) 1, BatchNorm2d 108, LeakyReLU,
      Conv2d 108 162 (1, 3) (1, 2) (0, 1) 1, BatchNorm2d 162, LeakyReLU,
      Conv2d 162 243 (1, 3) (1, 2) (0, 1) 1, BatchNorm2d 243, LeakyReLU,
      Conv2d 243 256 (1, 2) (1, 2) (0, 0) 1, BatchNorm2d 256, LeakyReLU]"

fun conv_channels :: "layer list \<Rightarrow> nat list" where
  "conv_channels [] = []"
| "conv_channels (Conv2d cin cout k s p d # ls) = cout # conv_channels ls"
| "conv_channels (l # ls) = conv_channels ls"

section \<open>Training: losses and checkpoints\<close>

text \<open>
  \<open>t.view(-1, 2, OUTPUT_COUNT)\<close> of a tensor given by its rows of \<open>OUTPUT_COUNT\<close>
  values: consecutive rows are paired, and their number must be even. \<open>frame j\<close> is
  the selection \<open>[:, j, :]\<close> of such a view.
\<close>

definition pairView :: "'a list list \<Rightarrow> error + 'a list list list" where
  "pairView rows = (if odd (length rows) then Inl RuntimeError else Inr (chunks 2 rows))"

definition frame :: "nat \<Rightarrow> 'a list list list \<Rightarrow> 'a list list" where
  "frame j pv = map (\<lambda>p. p ! j) pv"

text \<open>
  Difference and squared error of two tensors of two dimensions, element by element.
  The two shapes are equal wherever the training loop uses them; unequal shapes are
  an error here.
\<close>

definition tensor_sub :: "real list list \<Rightarrow> real list list \<Rightarrow> error + real list list" where
  "tensor_sub x y =
     (if map length x = map length y then Inr (map2 (map2 (\<lambda>u v. u - v)) x y)
      else Inl RuntimeError)"

definition MSENoReductionCriterion :: "real list list \<Rightarrow> real list list \<Rightarrow> error + real list list" where
  "MSENoReductionCriterion x y =
     (if map length x = map length y then Inr (map2 (map2 (\<lambda>u v. (u - v)\<^sup>2)) x y)
      else Inl RuntimeError)"

definition torch_sum_last :: "real list list \<Rightarrow> real list" where
  "torch_sum_last x = map sum_list x"

text \<open>The mean of no value is not a number: \<open>None\<close>.\<close>

definition torch_mean :: "real list \<Rightarrow> real option" where
  "torch_mean xs = (if xs = [] then None else Some (sum_list xs / real (length xs)))"

text \<open>
  The motion loss of \<open>train\<close>, from the model's result and the target of a batch, both
  of shape (2 * batch, \<open>OUTPUT_COUNT\<close>).
\<close>

definition motionLoss :: "real list list \<Rightarrow> real list list \<Rightarrow> error + real option" where
  "motionLoss modelResult target =
     (case pairView target of
        Inl e \<Rightarrow> Inl e
      | Inr targetPairView \<Rightarrow>
     (case pairView modelResult of
        Inl e \<Rightarrow> Inl e
      | Inr modelResultPairView \<Rightarrow>
     (case tensor_sub (frame 1 modelResultPairView) (frame 0 modelResultPairView) of
        Inl e \<Rightarrow> Inl e
      | Inr resultDelta \<Rightarrow>
     (case tensor_sub (frame 1 targetPairView) (frame 0 targetPairView) of
        Inl e \<Rightarrow> Inl e
      | Inr targetDelta \<Rightarrow>
     (case MSENoReductionCriterion resultDelta targetDelta of
        Inl e \<Rightarrow> Inl e
      | Inr sq \<Rightarrow> Inr (torch_mean (torch_sum_last sq)))))))"

definition shapeLoss :: "real list list \<Rightarrow> real list list \<Rightarrow> error + real option" where
  "shapeLoss modelResult target =
     (case pairView target of
        Inl e \<Rightarrow> Inl e
      | Inr targetPairView \<Rightarrow>
     (case pairView modelResult of
        Inl e \<Rightarrow> Inl e
      | Inr modelResultPairView \<Rightarrow>
     (case MSENoReductionCriterion (frame 0 modelResultPairView) (frame 0 targetPairView) of
        Inl e \<Rightarrow> Inl e
      | Inr sq \<Rightarrow> Inr (torch_mean (torch_sum_last sq)))))"


definition checkpointPath :: "string \<Rightarrow> string \<Rightarrow> nat \<Rightarrow> string" where
  "checkpointPath modelDir runStr n =
     os_path_join modelDir [runStr @ ''_E'' @ format_05d (int n) @ ''.pth'']"

definition finalPath :: "string \<Rightarrow> string \<Rightarrow> string" where
  "finalPath modelDir runStr = os_path_join modelDir [runStr @ ''_fin.pth'']"

fun train_epochs ::
  "(nat \<Rightarrow> 'm \<Rightarrow> error + 'm) \<Rightarrow> string \<Rightarrow> string \<Rightarrow> nat list \<Rightarrow> 'm \<Rightarrow> (string \<times> 'm) list
     \<Rightarrow> (string \<times> 'm) list \<times> (error + 'm)" where
  "train_epochs epoch modelDir runStr [] model saved = (saved, Inr model)"
| "train_epochs epoch modelDir runStr (epochIdx # rest) model saved =
     (case epoch epochIdx model of
        Inl e \<Rightarrow> (saved, Inl e)
      | Inr model' \<Rightarrow>
          train_epochs epoch modelDir runStr rest model'
            (if (epochIdx + 1) mod 50 = 0
             then saved @ [(checkpointPath modelDir runStr (epochIdx + 1), model')]
             else saved))"

text \<open>
  \<open>train\<close>, with the number of epochs as a parameter; the source fixes it to
  \<open>epochCount\<close>.
\<close>

definition train ::
  "nat \<Rightarrow> (nat \<Rightarrow> 'm \<Rightarrow> error + 'm) \<Rightarrow> string \<Rightarrow> string \<Rightarrow> 'm
     \<Rightarrow> (string \<times> 'm) list \<times> (error + 'm)" where
  "train n epoch modelDir runStr model0 =
     (case train_epochs epoch modelDir runStr [0..<n] model0 [] of
        (saved, Inl e) \<Rightarrow> (saved, Inl e)
      | (saved, Inr model) \<Rightarrow> (saved @ [(finalPath modelDir runStr, model)], Inr model))"



text \<open>
  In each pair of a batch the second frame equals the first: the selections
  \<open>[:, 1, :]\<close> and \<open>[:, 0, :]\<close> of the paired view are the same tensor.
\<close>

definition framesEqual :: "'a list list \<Rightarrow> bool" where
  "framesEqual rows = (frame 1 (chunks 2 rows) = frame 0 (chunks 2 rows))"

section \<open>Example inputs\<close>

text \<open>
  Concrete inputs on which the theorems below are exercised: feature sequences whose row
  \<open>k\<close> holds the number \<open>k\<close> 32 times, waveforms at 16 kHz of 1068, 1504, 1632, 16000
  and 524512 samples (26, 40, 44, 493 and 16384 feature rows at a frame shift of 32
  samples and a frame length of 256), random sources, target files, a run of the
  training loop and a batch.
\<close>

definition rampFeatures :: "nat \<Rightarrow> int list list" where
  "rampFeatures T = map (\<lambda>k. replicate 32 (int k)) [0..<T]"

definition keepLength :: "nat \<Rightarrow> nat \<Rightarrow> nat" where
  "keepLength r n = n"

definition zeroDraws :: rng where
  "zeroDraws = (\<lambda>n. 0)"

definition oneDraws :: rng where
  "oneDraws = (\<lambda>n. 1)"

definition noFiles :: files where
  "noFiles = (\<lambda>p. None)"

definition fullScaleFiles :: files where
  "fullScaleFiles = (\<lambda>p. Some (replicate OUTPUT_COUNT 2))"

definition shortClip :: "int Data" where
  "shortClip = Data_init True None (1068, 16000) keepLength (rampFeatures 26)"

definition clip40 :: "int Data" where
  "clip40 = Data_init True None (1504, 16000) keepLength (rampFeatures 40)"

definition clip44 :: "int Data" where
  "clip44 = Data_init False None (1632, 16000) keepLength (rampFeatures 44)"

definition previewClip :: "int Data" where
  "previewClip = Data_init True (Some ''speech.wav'') (1504, 16000) keepLength (rampFeatures 40)"

text \<open>The clip of 1068 samples again, 26 rows and 2 frames, in preview mode.\<close>

definition shortPreviewClip :: "int Data" where
  "shortPreviewClip =
     Data_init True (Some ''speech.wav'') (1068, 16000) keepLength (rampFeatures 26)"

definition rootPath :: string where
  "rootPath = ''/home/user/sandbox/surat''"

definition oneSecond :: "int Data" where
  "oneSecond = Data_init True None (16000, 16000) keepLength (rampFeatures 493)"

definition countingEpoch :: "nat \<Rightarrow> nat \<Rightarrow> error + nat" where
  "countingEpoch epochIdx model = Inr (Suc model)"

definition exampleModelDir :: string where
  "exampleModelDir = ''/home/user/sandbox/surat/model/26_11_04_12_00_00''"

definition exampleRunStr :: string where
  "exampleRunStr = ''26_11_04_12_00_00''"

definition exampleResult :: "real list list" where
  "exampleResult = [[1, 2], [1, 2]]"

definition exampleTarget :: "real list list" where
  "exampleTarget = [[0, 0], [0, 0]]"

definition longClip :: "int Data" where
  "longClip = Data_init True None (524512, 16000) keepLength (rampFeatures 16384)"

section \<open>Rounding to double precision\<close>

lemma bit_length_bounds:
  "0 < n \<Longrightarrow> 2 ^ (bit_length n - 1) \<le> n \<and> n < 2 ^ bit_length n"
proof (induction n rule: bit_length.induct)
  case (1 n)
  show ?case
  proof (cases "n div 2 = 0")
    case True
    then have "n = 1" using 1(2) by linarith
    then show ?thesis by (simp add: bit_length.simps)
  next
    case False
    then have pos: "0 < n div 2" using 1(2) by linarith
    have ih: "2 ^ (bit_length (n div 2) - 1) \<le> n div 2" "n div 2 < 2 ^ bit_length (n div 2)"
      using 1(1) 1(2) pos by simp_all
    have b: "bit_length n = Suc (bit_length (n div 2))"
      using 1(2) by (subst bit_length.simps) simp
    have b1: "0 < bit_length (n div 2)"
      using pos by (subst bit_length.simps) simp
    then have "(2::int) ^ bit_length (n div 2) = 2 * 2 ^ (bit_length (n div 2) - 1)"
      by (cases "bit_length (n div 2)") simp_all
    then have "2 ^ bit_length (n div 2) \<le> n"
      using ih(1) by linarith
    moreover have "n < 2 * 2 ^ bit_length (n div 2)"
      using ih(2) by linarith
    ultimately show ?thesis by (simp add: b)
  qed
qed

lemma bit_length_pos: "0 < n \<Longrightarrow> 0 < bit_length n"
  by (subst bit_length.simps) simp

lemma bit_length_powi:
  assumes "0 < n"
  shows "2 powi (int (bit_length n) - 1) \<le> real_of_int n"
    and "real_of_int n < 2 powi (int (bit_length n))"
proof -
  have e: "int (bit_length n) - 1 = int (bit_length n - 1)"
    using bit_length_pos [OF assms] by simp
  have "real_of_int (2 ^ (bit_length n - 1)) \<le> real_of_int n"
    using bit_length_bounds [OF assms] by (simp only: of_int_le_iff)
  then show "2 powi (int (bit_length n) - 1) \<le> real_of_int n"
    by (simp add: e)
  have "real_of_int n < real_of_int (2 ^ bit_length n)"
    using bit_length_bounds [OF assms] by (simp only: of_int_less_iff)
  then show "real_of_int n < 2 powi (int (bit_length n))"
    by simp
qed

lemma pw_add: "2 powi a * 2 powi b = (2::real) powi (a + b)"
  by (simp add: power_int_add)

lemma pw_pos: "0 < (2::real) powi a"
  by simp

lemma scaled_quotient:
  assumes "q \<noteq> 0"
  shows "real_of_int (p * 2 ^ nat (- a)) / real_of_int (q * 2 ^ nat a) =
           (real_of_int p / real_of_int q) * 2 powi (- a)"
proof (cases "0 \<le> a")
  case True
  then show ?thesis by (simp add: power_int_def field_simps)
next
  case False
  then show ?thesis by (simp add: power_int_def field_simps)
qed

lemma scaled_less_iff:
  assumes "0 < q"
  shows "p * 2 ^ nat (- a) < q * 2 ^ nat a \<longleftrightarrow> real_of_int p / real_of_int q < 2 powi a"
proof -
  have q: "0 < real_of_int q" using assms by simp
  show ?thesis
  proof (cases "0 \<le> a")
    case True
    have "p < q * 2 ^ nat a \<longleftrightarrow> real_of_int p < real_of_int (q * 2 ^ nat a)"
      by (simp only: of_int_less_iff)
    also have "\<dots> \<longleftrightarrow> real_of_int p < 2 ^ nat a * real_of_int q"
      by (simp add: mult.commute)
    also have "\<dots> \<longleftrightarrow> real_of_int p / real_of_int q < 2 ^ nat a"
      using q by (simp only: pos_divide_less_eq)
    finally show ?thesis using True by (simp add: power_int_def)
  next
    case False
    have "p * 2 ^ nat (- a) < q \<longleftrightarrow> real_of_int (p * 2 ^ nat (- a)) < real_of_int q"
      by (simp only: of_int_less_iff)
    also have "\<dots> \<longleftrightarrow> real_of_int p * 2 ^ nat (- a) < real_of_int q"
      by simp
    also have "\<dots> \<longleftrightarrow> real_of_int p < real_of_int q / 2 ^ nat (- a)"
      by (simp only: pos_less_divide_eq [of "2 ^ nat (- a)", OF zero_less_power [OF zero_less_numeral]])
    also have "\<dots> \<longleftrightarrow> real_of_int p < (1 / 2 ^ nat (- a)) * real_of_int q"
      by simp
    also have "\<dots> \<longleftrightarrow> real_of_int p / real_of_int q < 1 / 2 ^ nat (- a)"
      using q by (simp only: pos_divide_less_eq)
    finally show ?thesis using False by (simp add: power_int_def inverse_eq_divide power_one_over)
  qed
qed

lemma ilog2_bounds:
  assumes "0 < p" "0 < q"
  shows "2 powi (ilog2 p q) \<le> real_of_int p / real_of_int q"
    and "real_of_int p / real_of_int q < 2 powi (ilog2 p q + 1)"
proof -
  define D where "D = int (bit_length p) - int (bit_length q)"
  define x where "x = real_of_int p / real_of_int q"
  have q: "0 < real_of_int q" using assms by simp
  have lo: "2 powi (D - 1) \<le> x"
  proof -
    have "2 powi (D - 1) * real_of_int q \<le> 2 powi (D - 1) * 2 powi (int (bit_length q))"
      using bit_length_powi(2) [OF assms(2)] by (intro mult_left_mono) simp_all
    also have "\<dots> = 2 powi (int (bit_length p) - 1)"
      by (subst pw_add, rule arg_cong [where f = "power_int 2"]) (simp add: D_def)
    also have "\<dots> \<le> real_of_int p"
      using bit_length_powi(1) [OF assms(1)] .
    finally show ?thesis using q by (simp add: x_def pos_le_divide_eq)
  qed
  have hi: "x < 2 powi (D + 1)"
  proof -
    have "real_of_int p < 2 powi (int (bit_length p))"
      using bit_length_powi(2) [OF assms(1)] .
    also have "\<dots> = 2 powi (D + 1) * 2 powi (int (bit_length q) - 1)"
      by (subst pw_add, rule arg_cong [where f = "power_int 2"]) (simp add: D_def)
    also have "\<dots> \<le> 2 powi (D + 1) * real_of_int q"
      using bit_length_powi(1) [OF assms(2)] by (intro mult_left_mono) simp_all
    finally show ?thesis using q by (simp add: x_def pos_divide_less_eq)
  qed
  have t: "p * 2 ^ nat (- D) < q * 2 ^ nat D \<longleftrightarrow> x < 2 powi D"
    using assms(2) by (simp add: scaled_less_iff x_def)
  show "2 powi (ilog2 p q) \<le> real_of_int p / real_of_int q"
    using lo t by (auto simp: ilog2_def Let_def D_def [symmetric] x_def [symmetric])
  show "real_of_int p / real_of_int q < 2 powi (ilog2 p q + 1)"
    using hi t by (auto simp: ilog2_def Let_def D_def [symmetric] x_def [symmetric])
qed

lemma rnd_half_even_cases:
  "rnd_half_even p q = p div q \<or> (rnd_half_even p q = p div q + 1 \<and> q \<le> 2 * (p mod q))"
  by (auto simp: rnd_half_even_def Let_def)

lemma rnd_half_even_exact:
  assumes "0 < q"
  shows "rnd_half_even (k * q) q = k"
  using assms by (simp add: rnd_half_even_def Let_def)

lemma rnd_half_even_ge:
  assumes "0 < q" "k * q \<le> p"
  shows "k \<le> rnd_half_even p q"
proof -
  have "k \<le> p div q"
    using assms by (simp add: pos_imp_zdiv_pos_iff zdiv_mono1 [of "k * q" p q, simplified])
  then show ?thesis
    using rnd_half_even_cases [of p q] by linarith
qed

lemma rnd_half_even_le:
  assumes "0 < q" "p \<le> k * q"
  shows "rnd_half_even p q \<le> k"
proof -
  have d: "p div q \<le> k"
    using assms zdiv_mono1 [of p "k * q" q] by simp
  show ?thesis
  proof (cases "p mod q = 0")
    case True
    then have "rnd_half_even p q = p div q"
      using assms(1) by (simp add: rnd_half_even_def Let_def)
    then show ?thesis using d by simp
  next
    case False
    then have "0 < p mod q" using assms(1) pos_mod_sign [of q p] by linarith
    then have "(p div q) * q < p"
      using div_mult_mod_eq [of p q] by linarith
    then have "(p div q) * q < k * q" using assms(2) by linarith
    then have "p div q < k" using assms(1) by (simp add: mult_less_cancel_right)
    then show ?thesis using rnd_half_even_cases [of p q] by linarith
  qed
qed

lemma rnd_half_even_error:
  assumes "0 < q"
  shows "\<bar>real_of_int (rnd_half_even p q) - real_of_int p / real_of_int q\<bar> \<le> 1 / 2"
proof -
  define f where "f = p div q"
  define r where "r = p mod q"
  have p: "p = f * q + r" by (simp add: f_def r_def)
  have r: "0 \<le> r" "r < q" using assms by (simp_all add: r_def)
  have q: "0 < real_of_int q" using assms by simp
  have x: "real_of_int p / real_of_int q = real_of_int f + real_of_int r / real_of_int q"
    using q by (simp add: p field_simps)
  have rq: "0 \<le> real_of_int r / real_of_int q" "real_of_int r / real_of_int q < 1"
    using r q by simp_all
  have "(rnd_half_even p q = f \<and> 2 * r \<le> q) \<or> (rnd_half_even p q = f + 1 \<and> q \<le> 2 * r)"
    unfolding rnd_half_even_def Let_def f_def [symmetric] r_def [symmetric]
    by (cases "2 * r < q"; cases "q < 2 * r"; cases "even f") simp_all
  then consider "rnd_half_even p q = f" "2 * r \<le> q" | "rnd_half_even p q = f + 1" "q \<le> 2 * r"
    by blast
  then show ?thesis
  proof cases
    case 1
    have "real_of_int (2 * r) \<le> real_of_int q" using 1(2) by (simp only: of_int_le_iff)
    then have "real_of_int r / real_of_int q \<le> 1 / 2"
      using q by (simp add: pos_divide_le_eq)
    then show ?thesis using rq by (simp add: 1(1) x)
  next
    case 2
    have "real_of_int q \<le> real_of_int (2 * r)" using 2(2) by (simp only: of_int_le_iff)
    then have "1 / 2 \<le> real_of_int r / real_of_int q"
      using q by (simp add: pos_le_divide_eq)
    then show ?thesis using rq by (simp add: 2(1) x)
  qed
qed

text \<open>The value of a rounded quotient of two positive numbers.\<close>

lemma dval_fl_pos:
  assumes "0 < q"
  shows "dval (fl_pos p q) =
           real_of_int (rnd_half_even (p * 2 ^ nat (- (ilog2 p q - 52))) (q * 2 ^ nat (ilog2 p q - 52)))
           * 2 powi (ilog2 p q - 52)"
proof (cases "0 \<le> ilog2 p q - 52")
  case True
  then show ?thesis by (simp add: dval_def fl_pos_def Let_def power_int_def)
next
  case False
  then have n: "nat (ilog2 p q - 52) = 0" by simp
  have "2 powi (ilog2 p q - 52) = inverse ((2::real) ^ nat (- (ilog2 p q - 52)))"
    using False by (simp only: power_int_def power_inverse if_False)
  then show ?thesis
    by (simp only: dval_def fl_pos_def Let_def n fst_conv snd_conv power_0 mult_1_right
        divide_inverse of_int_power of_int_numeral)
qed

lemma snd_fl_pos: "0 < snd (fl_pos p q)"
  by (simp add: fl_pos_def Let_def)

lemma scaled_range:
  assumes "0 < p" "0 < q"
  defines "e \<equiv> ilog2 p q - 52"
  shows "2 ^ 52 \<le> real_of_int (p * 2 ^ nat (- e)) / real_of_int (q * 2 ^ nat e)"
    and "real_of_int (p * 2 ^ nat (- e)) / real_of_int (q * 2 ^ nat e) < 2 ^ 53"
proof -
  let ?x = "real_of_int p / real_of_int q"
  have s: "real_of_int (p * 2 ^ nat (- e)) / real_of_int (q * 2 ^ nat e) = ?x * 2 powi (- e)"
    using assms(2) by (intro scaled_quotient) simp
  have "2 powi 52 = 2 powi (ilog2 p q) * (2::real) powi (- e)"
    by (subst pw_add, rule arg_cong [where f = "power_int 2"]) (simp add: e_def)
  also have "\<dots> \<le> ?x * 2 powi (- e)"
    using ilog2_bounds(1) [OF assms(1,2)] by (intro mult_right_mono) simp_all
  finally show "2 ^ 52 \<le> real_of_int (p * 2 ^ nat (- e)) / real_of_int (q * 2 ^ nat e)"
    unfolding s by simp
  have "?x * 2 powi (- e) < 2 powi (ilog2 p q + 1) * 2 powi (- e)"
    using ilog2_bounds(2) [OF assms(1,2)] by (intro mult_strict_right_mono) simp_all
  also have "\<dots> = 2 powi 53"
    by (subst pw_add, rule arg_cong [where f = "power_int 2"]) (simp add: e_def)
  finally show "real_of_int (p * 2 ^ nat (- e)) / real_of_int (q * 2 ^ nat e) < 2 ^ 53"
    unfolding s by simp
qed

lemma pw_less_imp: "(2::real) powi a < 2 powi b \<Longrightarrow> a < b"
  using power_int_increasing [of b a "2::real"] by (cases "a < b") auto

lemma pw_le_imp: "(2::real) powi a \<le> 2 powi b \<Longrightarrow> a \<le> b"
  using power_int_strict_increasing [of b a "2::real"] by (cases "a \<le> b") auto

lemma ilog2_small:
  assumes "0 < p" "0 < q" "real_of_int p / real_of_int q < 2 ^ 53"
  shows "ilog2 p q - 52 \<le> 0"
proof -
  have "2 powi (ilog2 p q) < (2::real) powi 53"
    using ilog2_bounds(1) [OF assms(1,2)] assms(3) by simp
  then have "ilog2 p q < 53" by (rule pw_less_imp)
  then show ?thesis by simp
qed

lemma fl_pos_small:
  assumes "0 < p" "0 < q" "real_of_int p / real_of_int q < 2 ^ 53"
  shows "fl_pos p q =
           (rnd_half_even (p * 2 ^ nat (- (ilog2 p q - 52))) q, 2 ^ nat (- (ilog2 p q - 52)))"
proof -
  have "nat (ilog2 p q - 52) = 0"
    using ilog2_small [OF assms] by simp
  then show ?thesis by (simp add: fl_pos_def Let_def)
qed

lemma fl_pos_ge:
  assumes "0 < p" "0 < q" "real_of_int p / real_of_int q < 2 ^ 53" "k * q \<le> p"
  shows "real_of_int k \<le> dval (fl_pos p q)"
proof -
  define n where "n = nat (- (ilog2 p q - 52))"
  have "(k * 2 ^ n) * q \<le> p * 2 ^ n"
    using assms(4) by (simp add: mult.assoc mult.left_commute [of "2 ^ n"] mult.commute [of "2 ^ n"])
  then have "k * 2 ^ n \<le> rnd_half_even (p * 2 ^ n) q"
    using assms(2) by (intro rnd_half_even_ge)
  then have "real_of_int (k * 2 ^ n) \<le> real_of_int (rnd_half_even (p * 2 ^ n) q)"
    by (simp only: of_int_le_iff)
  then have "real_of_int k \<le> real_of_int (rnd_half_even (p * 2 ^ n) q) / 2 ^ n"
    by (simp add: pos_le_divide_eq)
  then show ?thesis
    by (simp add: fl_pos_small [OF assms(1-3)] dval_def n_def)
qed

lemma fl_pos_le:
  assumes "0 < p" "0 < q" "real_of_int p / real_of_int q < 2 ^ 53" "p \<le> k * q"
  shows "dval (fl_pos p q) \<le> real_of_int k"
proof -
  define n where "n = nat (- (ilog2 p q - 52))"
  have "p * 2 ^ n \<le> (k * 2 ^ n) * q"
    using assms(4) by (simp add: mult.assoc mult.left_commute [of "2 ^ n"] mult.commute [of "2 ^ n"])
  then have "rnd_half_even (p * 2 ^ n) q \<le> k * 2 ^ n"
    using assms(2) by (intro rnd_half_even_le)
  then have "real_of_int (rnd_half_even (p * 2 ^ n) q) \<le> real_of_int (k * 2 ^ n)"
    by (simp only: of_int_le_iff)
  then have "real_of_int (rnd_half_even (p * 2 ^ n) q) / 2 ^ n \<le> real_of_int k"
    by (simp add: pos_divide_le_eq)
  then show ?thesis
    by (simp add: fl_pos_small [OF assms(1-3)] dval_def n_def)
qed

text \<open>A quotient whose scaled value is an integer is not changed by the rounding.\<close>

lemma fl_pos_exact:
  assumes "0 < p" "0 < q" "0 < m" "m \<le> 2 ^ 53"
    and "real_of_int p / real_of_int q = real_of_int m * 2 powi a"
  shows "dval (fl_pos p q) = real_of_int p / real_of_int q"
proof -
  define e where "e = ilog2 p q - 52"
  define P where "P = p * 2 ^ nat (- e)"
  define Q where "Q = q * 2 ^ nat e"
  let ?x = "real_of_int p / real_of_int q"
  have Q: "0 < Q" using assms(2) by (simp add: Q_def)
  have s: "real_of_int P / real_of_int Q = ?x * 2 powi (- e)"
    unfolding P_def Q_def using assms(2) by (intro scaled_quotient) simp
  have "2 powi (ilog2 p q) \<le> real_of_int m * 2 powi a"
    using ilog2_bounds(1) [OF assms(1,2)] assms(5) by simp
  also have "\<dots> \<le> 2 powi 53 * 2 powi a"
  proof -
    have "real_of_int m \<le> real_of_int (2 ^ 53)" using assms(4) by (simp only: of_int_le_iff)
    then show ?thesis by (intro mult_right_mono) simp_all
  qed
  also have "\<dots> = 2 powi (53 + a)" by (rule pw_add)
  finally have E: "ilog2 p q \<le> 53 + a" by (rule pw_le_imp)
  have "\<exists>K. ?x * 2 powi (- e) = real_of_int K"
  proof (cases "e \<le> a")
    case True
    have "?x * 2 powi (- e) = real_of_int m * (2 powi a * 2 powi (- e))"
      by (simp add: assms(5))
    also have "2 powi a * (2::real) powi (- e) = 2 powi (a - e)"
      by (simp add: pw_add)
    also have "\<dots> = 2 ^ nat (a - e)"
      using True by (simp add: power_int_def)
    finally have "?x * 2 powi (- e) = real_of_int (m * 2 ^ nat (a - e))" by simp
    then show ?thesis by blast
  next
    case False
    then have ea: "e = a + 1" using E by (simp add: e_def)
    then have "ilog2 p q = 53 + a" by (simp add: e_def)
    then have "2 powi (53 + a) \<le> real_of_int m * 2 powi a"
      using ilog2_bounds(1) [OF assms(1,2)] assms(5) by simp
    then have "2 powi 53 * 2 powi a \<le> real_of_int m * 2 powi a"
      by (simp only: pw_add)
    then have "(2::real) powi 53 \<le> real_of_int m"
      using pw_pos [of a] by (simp add: mult_le_cancel_right)
    then have "real_of_int (2 ^ 53) \<le> real_of_int m" by simp
    then have "2 ^ 53 \<le> m" by (simp only: of_int_le_iff)
    then have m: "m = 2 ^ 53" using assms(4) by simp
    have "?x * 2 powi (- e) = real_of_int m * (2 powi a * 2 powi (- e))"
      by (simp add: assms(5))
    also have "2 powi a * (2::real) powi (- e) = 2 powi (- 1)"
      by (simp add: pw_add ea)
    finally have "?x * 2 powi (- e) = real_of_int (2 ^ 52)"
      by (simp add: m)
    then show ?thesis by blast
  qed
  then obtain K where K: "?x * 2 powi (- e) = real_of_int K" by blast
  have "real_of_int P / real_of_int Q = real_of_int K"
    by (simp only: s K)
  then have "real_of_int P = real_of_int K * real_of_int Q"
    using Q by (simp add: divide_eq_eq)
  then have "real_of_int P = real_of_int (K * Q)"
    by simp
  then have "P = K * Q" by (simp only: of_int_eq_iff)
  then have "rnd_half_even P Q = K"
    using Q by (simp add: rnd_half_even_exact)
  then have "dval (fl_pos p q) = real_of_int K * 2 powi e"
    using dval_fl_pos [OF assms(2), of p] by (simp add: e_def P_def Q_def)
  also have "\<dots> = ?x * (2 powi (- e) * 2 powi e)"
    by (simp add: K [symmetric])
  also have "2 powi (- e) * (2::real) powi e = 1"
    by (simp add: pw_add)
  finally show ?thesis by simp
qed

text \<open>The mantissa of a rounded quotient.\<close>

lemma fl_pos_mantissa:
  assumes "0 < p" "0 < q"
  obtains M e where "dval (fl_pos p q) = real_of_int M * 2 powi e" "2 ^ 52 \<le> M" "M \<le> 2 ^ 53"
    "0 < fst (fl_pos p q)"
proof -
  define e where "e = ilog2 p q - 52"
  define P where "P = p * 2 ^ nat (- e)"
  define Q where "Q = q * 2 ^ nat e"
  define M where "M = rnd_half_even P Q"
  have Q: "0 < Q" using assms(2) by (simp add: Q_def)
  have r: "2 ^ 52 \<le> real_of_int P / real_of_int Q" "real_of_int P / real_of_int Q < 2 ^ 53"
    using scaled_range [OF assms] by (simp_all add: P_def Q_def e_def)
  have "real_of_int (2 ^ 52 * Q) \<le> real_of_int P"
    using r(1) Q by (simp add: pos_le_divide_eq)
  then have "2 ^ 52 * Q \<le> P" by (simp only: of_int_le_iff)
  then have lo: "2 ^ 52 \<le> M" using Q unfolding M_def by (intro rnd_half_even_ge)
  have "real_of_int P \<le> real_of_int (2 ^ 53 * Q)"
    using r(2) Q by (simp add: pos_divide_less_eq)
  then have "P \<le> 2 ^ 53 * Q" by (simp only: of_int_le_iff)
  then have hi: "M \<le> 2 ^ 53" using Q unfolding M_def by (intro rnd_half_even_le)
  have v: "dval (fl_pos p q) = real_of_int M * 2 powi e"
    using dval_fl_pos [OF assms(2), of p] by (simp add: e_def P_def Q_def M_def)
  have "fst (fl_pos p q) = M * 2 ^ nat e"
    by (simp add: fl_pos_def Let_def e_def P_def Q_def M_def)
  then have "0 < fst (fl_pos p q)" using lo by simp
  then show ?thesis using that v lo hi by blast
qed

lemma fl_div_pos: "0 < p \<Longrightarrow> 0 < q \<Longrightarrow> fl_div p q = fl_pos p q"
  by (simp add: fl_div_def split: prod.splits)

lemma fl_div_zero: "fl_div 0 q = (0, 1)"
  by (simp add: fl_div_def)

lemma fl_div_nonneg:
  assumes "0 \<le> p" "0 < q"
  shows "0 \<le> fst (fl_div p q)" and "0 < snd (fl_div p q)"
proof -
  show "0 \<le> fst (fl_div p q)"
  proof (cases "p = 0")
    case True
    then show ?thesis by (simp add: fl_div_zero)
  next
    case False
    then have p: "0 < p" using assms(1) by simp
    obtain M e where "0 < fst (fl_pos p q)"
      using fl_pos_mantissa [OF p assms(2)] by blast
    then show ?thesis using p assms(2) by (simp add: fl_div_pos)
  qed
  show "0 < snd (fl_div p q)"
    using snd_fl_pos [of "\<bar>p\<bar>" "\<bar>q\<bar>"] by (auto simp: fl_div_def split: prod.splits)
qed

lemma py_int_floor:
  assumes "0 \<le> fst x" "0 < snd x"
  shows "py_int x = \<lfloor>dval x\<rfloor>"
  using assms by (cases x) (simp add: py_int_def dval_def floor_divide_of_int_eq)

lemma dval_nonneg: "0 \<le> fst x \<Longrightarrow> 0 < snd x \<Longrightarrow> 0 \<le> dval x"
  by (simp add: dval_def)

lemma fl_div_ge:
  assumes "0 \<le> p" "0 < q" "p < 2 ^ 53 * q" "k * q \<le> p"
  shows "real_of_int k \<le> dval (fl_div p q)"
proof (cases "p = 0")
  case True
  then have "k * q \<le> 0" using assms(4) by simp
  then have "k \<le> 0" using assms(2) by (simp add: mult_le_0_iff)
  then show ?thesis using True by (simp add: fl_div_zero dval_def)
next
  case False
  then have p: "0 < p" using assms(1) by simp
  have "real_of_int p < real_of_int (2 ^ 53 * q)" using assms(3) by (simp only: of_int_less_iff)
  then have "real_of_int p / real_of_int q < 2 ^ 53"
    using assms(2) by (simp add: pos_divide_less_eq)
  then show ?thesis
    using fl_pos_ge [OF p assms(2) _ assms(4)] p assms(2) by (simp add: fl_div_pos)
qed

lemma fl_div_le:
  assumes "0 \<le> p" "0 < q" "p < 2 ^ 53 * q" "p \<le> k * q"
  shows "dval (fl_div p q) \<le> real_of_int k"
proof (cases "p = 0")
  case True
  then have "0 \<le> k * q" using assms(4) by simp
  then have "0 \<le> k" using assms(2) by (simp add: zero_le_mult_iff)
  then show ?thesis using True by (simp add: fl_div_zero dval_def)
next
  case False
  then have p: "0 < p" using assms(1) by simp
  have "real_of_int p < real_of_int (2 ^ 53 * q)" using assms(3) by (simp only: of_int_less_iff)
  then have "real_of_int p / real_of_int q < 2 ^ 53"
    using assms(2) by (simp add: pos_divide_less_eq)
  then show ?thesis
    using fl_pos_le [OF p assms(2) _ assms(4)] p assms(2) by (simp add: fl_div_pos)
qed

text \<open>Rounding a double again gives the same double.\<close>

lemma fl_div_idem:
  assumes "0 \<le> p" "0 < q"
  shows "dval (fl_div (fst (fl_div p q)) (snd (fl_div p q))) = dval (fl_div p q)"
proof (cases "p = 0")
  case True
  then show ?thesis by (simp add: fl_div_zero)
next
  case False
  then have p: "0 < p" using assms(1) by simp
  obtain M e where M: "dval (fl_pos p q) = real_of_int M * 2 powi e" "2 ^ 52 \<le> M" "M \<le> 2 ^ 53"
    "0 < fst (fl_pos p q)"
    using fl_pos_mantissa [OF p assms(2)] by blast
  have "dval (fl_pos (fst (fl_pos p q)) (snd (fl_pos p q))) =
          real_of_int (fst (fl_pos p q)) / real_of_int (snd (fl_pos p q))"
    using M(4) snd_fl_pos [of p q] _ M(3)
  proof (rule fl_pos_exact)
    show "0 < M" using M(2) by simp
    show "real_of_int (fst (fl_pos p q)) / real_of_int (snd (fl_pos p q)) = real_of_int M * 2 powi e"
      using M(1) by (simp add: dval_def)
  qed
  then show ?thesis
    using p assms(2) M(4) snd_fl_pos [of p q] by (simp add: fl_div_pos dval_def)
qed

text \<open>The relative error of a rounding is at most \<open>2 ^ - 53\<close>.\<close>

lemma fl_pos_error:
  assumes "0 < p" "0 < q"
  shows "\<bar>dval (fl_pos p q) - real_of_int p / real_of_int q\<bar>
           \<le> (real_of_int p / real_of_int q) / 2 ^ 53"
proof -
  define e where "e = ilog2 p q - 52"
  define P where "P = p * 2 ^ nat (- e)"
  define Q where "Q = q * 2 ^ nat e"
  define M where "M = rnd_half_even P Q"
  let ?x = "real_of_int p / real_of_int q"
  let ?y = "real_of_int P / real_of_int Q"
  have Q: "0 < Q" using assms(2) by (simp add: Q_def)
  have s: "?y = ?x * 2 powi (- e)"
    unfolding P_def Q_def using assms(2) by (intro scaled_quotient) simp
  have x: "?x = ?y * 2 powi e"
  proof -
    have "?y * 2 powi e = ?x * (2 powi (- e) * 2 powi e)" by (simp add: s)
    also have "2 powi (- e) * (2::real) powi e = 1" by (simp add: pw_add)
    finally show ?thesis by simp
  qed
  have r: "2 ^ 52 \<le> ?y"
    using scaled_range(1) [OF assms] by (simp add: P_def Q_def e_def)
  have v: "dval (fl_pos p q) = real_of_int M * 2 powi e"
    using dval_fl_pos [OF assms(2), of p] by (simp add: e_def P_def Q_def M_def)
  have "\<bar>dval (fl_pos p q) - ?x\<bar> = \<bar>(real_of_int M - ?y) * 2 powi e\<bar>"
    by (subst x) (simp add: v algebra_simps)
  also have "\<dots> = \<bar>real_of_int M - ?y\<bar> * 2 powi e"
    by (simp add: abs_mult)
  also have "\<dots> \<le> (1 / 2) * 2 powi e"
    using rnd_half_even_error [OF Q, of P] by (intro mult_right_mono) (simp_all add: M_def)
  also have "\<dots> = (2 ^ 52 * 2 powi e) / 2 ^ 53"
    by simp
  also have "\<dots> \<le> (?y * 2 powi e) / 2 ^ 53"
    using r by (intro divide_right_mono mult_right_mono) simp_all
  finally show ?thesis using x by simp
qed

lemma fl_div_error:
  assumes "0 \<le> p" "0 < q"
  shows "\<bar>dval (fl_div p q) - real_of_int p / real_of_int q\<bar>
           \<le> (real_of_int p / real_of_int q) / 2 ^ 53"
proof (cases "p = 0")
  case True
  then show ?thesis by (simp add: fl_div_zero dval_def)
next
  case False
  then have "0 < p" using assms(1) by simp
  then show ?thesis using fl_pos_error [OF _ assms(2), of p] assms(2) by (simp add: fl_div_pos)
qed

lemmas float_eval =
  py_int_def float_add_def float_mul_def float_of_int_def fl_div_def fl_pos_def ilog2_def
  rnd_half_even_def bit_length.simps Let_def

lemma float_of_int_small:
  "float_of_int 0 = (0, 1)" "float_of_int 1 = (2 ^ 52, 2 ^ 52)"
  by (simp_all add: float_of_int_def fl_div_def fl_pos_def ilog2_def rnd_half_even_def
      bit_length.simps Let_def)

lemma float_add_zero:
  assumes "0 \<le> p" "0 < q"
  shows "py_int (float_add (fl_div p q) (float_of_int 0)) = \<lfloor>dval (fl_div p q)\<rfloor>"
proof -
  let ?X = "fl_div p q"
  have X: "0 \<le> fst ?X" "0 < snd ?X" using assms by (rule fl_div_nonneg)+
  have a: "float_add ?X (float_of_int 0) = fl_div (fst ?X) (snd ?X)"
    by (simp add: float_add_def float_of_int_small)
  have "py_int (fl_div (fst ?X) (snd ?X)) = \<lfloor>dval (fl_div (fst ?X) (snd ?X))\<rfloor>"
    using fl_div_nonneg [OF X] by (rule py_int_floor)
  then show ?thesis
    by (simp add: a fl_div_idem [OF assms])
qed

lemma float_add_one:
  assumes "0 \<le> p" "0 < q" "\<lfloor>dval (fl_div p q)\<rfloor> < 2 ^ 52"
  shows "\<lfloor>dval (fl_div p q)\<rfloor> + 1 \<le> py_int (float_add (fl_div p q) (float_of_int 1))"
    and "py_int (float_add (fl_div p q) (float_of_int 1)) \<le> \<lfloor>dval (fl_div p q)\<rfloor> + 2"
proof -
  let ?X = "fl_div p q"
  define fx where "fx = fst ?X"
  define sx where "sx = snd ?X"
  define k where "k = fx div sx"
  have X: "0 \<le> fx" "0 < sx" using fl_div_nonneg [OF assms(1,2)] by (simp_all add: fx_def sx_def)
  have kf: "\<lfloor>dval ?X\<rfloor> = k"
    by (simp add: dval_def k_def fx_def sx_def floor_divide_of_int_eq)
  have k0: "0 \<le> k" using X by (simp add: k_def pos_imp_zdiv_nonneg_iff)
  have k52: "k < 2 ^ 52" using assms(3) kf by simp
  have lo: "k * sx \<le> fx"
  proof -
    have "fx = k * sx + fx mod sx" by (simp add: k_def)
    moreover have "0 \<le> fx mod sx" using X(2) by simp
    ultimately show ?thesis by linarith
  qed
  have hi: "fx < (k + 1) * sx"
  proof -
    have "fx = k * sx + fx mod sx" by (simp add: k_def)
    moreover have "fx mod sx < sx" using X(2) by simp
    ultimately have "fx < k * sx + sx" by linarith
    then show ?thesis by (simp add: algebra_simps)
  qed
  define n' where "n' = fx * 2 ^ 52 + 2 ^ 52 * sx"
  define d' where "d' = sx * 2 ^ 52"
  have a: "float_add ?X (float_of_int 1) = fl_div n' d'"
    by (simp add: float_add_def float_of_int_small n'_def d'_def fx_def sx_def)
  have d': "0 < d'" using X(2) by (simp add: d'_def)
  have n': "0 \<le> n'" using X by (simp add: n'_def)
  have g: "(k + 1) * d' \<le> n'"
  proof -
    have "(k + 1) * d' = (k * sx + sx) * 2 ^ 52" by (simp add: d'_def algebra_simps)
    also have "\<dots> \<le> (fx + sx) * 2 ^ 52" using lo by (intro mult_right_mono) simp_all
    also have "\<dots> = n'" by (simp add: n'_def algebra_simps)
    finally show ?thesis .
  qed
  have l: "n' \<le> (k + 2) * d'"
  proof -
    have "n' = (fx + sx) * 2 ^ 52" by (simp add: n'_def algebra_simps)
    also have "\<dots> \<le> ((k + 1) * sx + sx) * 2 ^ 52" using hi by (intro mult_right_mono) simp_all
    also have "\<dots> = (k + 2) * d'" by (simp add: d'_def algebra_simps)
    finally show ?thesis .
  qed
  have b: "n' < 2 ^ 53 * d'"
  proof -
    have "n' = (fx + sx) * 2 ^ 52" by (simp add: n'_def algebra_simps)
    also have "\<dots> < ((k + 1) * sx + sx) * 2 ^ 52"
      using hi by (intro mult_strict_right_mono) simp_all
    also have "\<dots> = (k + 2) * d'" by (simp add: d'_def algebra_simps)
    also have "\<dots> \<le> 2 ^ 53 * d'" using k52 d' by (intro mult_right_mono) simp_all
    finally show ?thesis .
  qed
  have F: "0 \<le> fst (fl_div n' d')" "0 < snd (fl_div n' d')"
    using n' d' by (rule fl_div_nonneg)+
  have py: "py_int (fl_div n' d') = \<lfloor>dval (fl_div n' d')\<rfloor>"
    using F by (rule py_int_floor)
  have "real_of_int (k + 1) \<le> dval (fl_div n' d')"
    using n' d' b g by (rule fl_div_ge)
  then have "k + 1 \<le> \<lfloor>dval (fl_div n' d')\<rfloor>" by (simp only: le_floor_iff)
  then show "\<lfloor>dval ?X\<rfloor> + 1 \<le> py_int (float_add ?X (float_of_int 1))"
    by (simp add: a py kf)
  have "dval (fl_div n' d') \<le> real_of_int (k + 2)"
    using n' d' b l by (rule fl_div_le)
  then have "\<lfloor>dval (fl_div n' d')\<rfloor> \<le> k + 2"
    using floor_mono [of "dval (fl_div n' d')" "real_of_int (k + 2)"] by simp
  then show "py_int (float_add ?X (float_of_int 1)) \<le> \<lfloor>dval ?X\<rfloor> + 2"
    by (simp add: a py kf)
qed

section \<open>Lists, views and windows\<close>

lemma chunks_append:
  assumes "0 < n" "length xs = n"
  shows "chunks n (xs @ ys) = xs # chunks n ys"
proof -
  have d: "(n + length ys) div n = Suc (length ys div n)"
    using assms(1) by simp
  have "[0..<Suc (length ys div n)] = 0 # map Suc [0..<length ys div n]"
    by (simp add: upt_conv_Cons map_Suc_upt del: upt_Suc)
  then show ?thesis
    using assms by (simp add: chunks_def d comp_def del: upt_Suc)
qed

lemma chunks_Nil: "chunks n [] = []"
  by (simp add: chunks_def)

lemma chunks_concat:
  assumes "0 < n" "list_all (\<lambda>r. length r = n) rows"
  shows "chunks n (concat rows) = rows"
  using assms(2)
proof (induction rows)
  case Nil
  show ?case by (simp add: chunks_Nil)
next
  case (Cons r rows)
  then show ?case using assms(1) by (simp add: chunks_append)
qed

lemma length_concat_rows:
  "list_all (\<lambda>r. length r = n) rows \<Longrightarrow> length (concat rows) = n * length rows"
  by (induction rows) auto

lemma chunks_two:
  assumes "0 < n" "length xs = n" "length ys = n"
  shows "chunks n (xs @ ys) = [xs, ys]"
proof -
  have "chunks n (ys @ []) = [ys]"
    using assms by (subst chunks_append) (simp_all add: chunks_Nil)
  then show ?thesis using assms by (simp add: chunks_append)
qed

lemma chunks_one_pair: "chunks (Suc 0) [x, y] = [[x], [y]]"
  by (simp add: chunks_def upt_conv_Cons)

lemma view4_pair:
  assumes "length w1 = 64" "length w2 = 64"
    and "list_all (\<lambda>r. length r = 32) (w1 @ w2)"
  shows "view4 (2, 1, 64, 32) (w1 @ w2) = Inr [[w1], [w2]]"
proof -
  have l: "length (concat (w1 @ w2)) = 2 * 1 * 64 * 32"
    using length_concat_rows [OF assms(3)] assms(1,2) by simp
  have c: "chunks 32 (concat (w1 @ w2)) = w1 @ w2"
    using assms(3) by (intro chunks_concat) simp_all
  have "chunks 64 (w1 @ w2) = [w1, w2]"
    using assms(1,2) by (intro chunks_two) simp_all
  then show ?thesis
    using l c by (simp add: view4_def chunks_one_pair del: concat_append)
qed

lemma view4_wrong_size:
  assumes "list_all (\<lambda>r. length r = 32) rows" "length rows \<noteq> 128"
  shows "view4 (2, 1, 64, 32) rows = Inl RuntimeError"
  using length_concat_rows [OF assms(1)] assms(2) by (simp add: view4_def)

lemma length_torch_roll: "length (torch_roll x s) = length x"
  by (simp add: torch_roll_def)

lemma nth_torch_roll:
  assumes "j < length x"
  shows "torch_roll x s ! j = x ! nat ((int j - s) mod int (length x))"
proof -
  let ?L = "int (length x)"
  have ne: "x \<noteq> []" using assms by (cases x) simp_all
  have L: "0 < ?L" using ne by simp
  have "int ((nat ((- s) mod ?L) + j) mod length x) = ((- s) mod ?L + int j) mod ?L"
    using L by (simp add: zmod_int)
  also have "\<dots> = (int j - s) mod ?L"
    by (simp add: mod_add_left_eq)
  finally have "(nat ((- s) mod ?L) + j) mod length x = nat ((int j - s) mod ?L)"
    by linarith
  then show ?thesis
    using assms ne by (simp add: torch_roll_def nth_rotate)
qed

lemma rollWindow_circular:
  assumes "32 \<le> length m"
  shows "rollWindow m a = circularWindow m a"
proof (rule nth_equalityI)
  show "length (rollWindow m a) = length (circularWindow m a)"
    using assms by (simp add: rollWindow_def circularWindow_def length_torch_roll)
next
  fix j assume "j < length (rollWindow m a)"
  then have j: "j < 64"
    using assms by (simp add: rollWindow_def length_torch_roll)
  show "rollWindow m a ! j = circularWindow m a ! j"
  proof (cases "j < 32")
    case True
    then have "rollWindow m a ! j = torch_roll m (a * -1 + 32) ! j"
      using assms by (simp add: rollWindow_def nth_append length_torch_roll)
    also have "\<dots> = m ! nat ((int j - (a * -1 + 32)) mod int (length m))"
      using True assms by (intro nth_torch_roll) simp
    also have "int j - (a * -1 + 32) = a - 32 + int j" by simp
    finally show ?thesis using j by (simp add: circularWindow_def)
  next
    case False
    then have "rollWindow m a ! j = torch_roll m (a * -1) ! (j - 32)"
      using assms j by (simp add: rollWindow_def nth_append length_torch_roll)
    also have "\<dots> = m ! nat ((int (j - 32) - (a * -1)) mod int (length m))"
      using j assms by (intro nth_torch_roll) simp
    also have "int (j - 32) - (a * -1) = a - 32 + int j" using False by simp
    finally show ?thesis using j by (simp add: circularWindow_def)
  qed
qed

lemma py_slice_in_range:
  assumes "0 \<le> lo" "lo \<le> hi" "hi \<le> int (length x)"
  shows "py_slice x lo hi = take (nat (hi - lo)) (drop (nat lo) x)"
  using assms by (simp add: py_slice_def Let_def min_def)

lemma py_slice_circular:
  assumes "32 \<le> a" "a + 32 \<le> int (length m)"
  shows "py_slice m (a - 32) (a + 32) = circularWindow m a"
proof -
  have s: "py_slice m (a - 32) (a + 32) = take 64 (drop (nat (a - 32)) m)"
    using assms by (simp add: py_slice_in_range)
  have l: "nat (a - 32) + 64 \<le> length m"
    using assms by linarith
  show ?thesis
  proof (rule nth_equalityI)
    show "length (py_slice m (a - 32) (a + 32)) = length (circularWindow m a)"
      using l by (simp add: s circularWindow_def)
  next
    fix j assume "j < length (py_slice m (a - 32) (a + 32))"
    then have j: "j < 64" by (simp add: s)
    have "(a - 32 + int j) mod int (length m) = a - 32 + int j"
      using assms j by (intro mod_pos_pos_trivial) simp_all
    moreover have "nat (a - 32) + j = nat (a - 32 + int j)"
      using assms by simp
    ultimately show "py_slice m (a - 32) (a + 32) ! j = circularWindow m a ! j"
      using l j by (simp add: s circularWindow_def)
  qed
qed

lemma length_circularWindow: "length (circularWindow m a) = 64"
  by (simp add: circularWindow_def)

lemma circularWindow_rows:
  assumes "list_all (\<lambda>r. length r = n) m" "m \<noteq> []"
  shows "list_all (\<lambda>r. length r = n) (circularWindow m a)"
proof -
  have "\<And>j. nat ((a - 32 + int j) mod int (length m)) < length m"
    using assms(2) by (simp add: nat_less_iff)
  then show ?thesis
    using assms(1) by (simp add: circularWindow_def list_all_iff del: upt_Suc) 
qed

section \<open>The sampler's result\<close>

lemma inputValue_of_circular:
  assumes "features_ok d" "32 \<le> length (MFCC d)"
  shows "inputValue_of d a b =
           Inr [[circularWindow (MFCC d) a], [circularWindow (MFCC d) b]]"
proof -
  let ?m = "MFCC d"
  have ne: "?m \<noteq> []" using assms(2) by (cases ?m) simp_all
  have rows: "list_all (\<lambda>r. length r = 32) (circularWindow ?m a @ circularWindow ?m b)"
    using assms(1) ne by (simp add: features_ok_def circularWindow_rows)
  have v: "view4 (2, 1, 64, 32) (circularWindow ?m a @ circularWindow ?m b) =
             Inr [[circularWindow ?m a], [circularWindow ?m b]]"
    using rows by (intro view4_pair) (simp_all add: length_circularWindow)
  show ?thesis
  proof (cases "a < 32 \<or> b < 32 \<or> a + 32 > MFCCLen d \<or> b + 32 > MFCCLen d")
    case True
    then show ?thesis
      using v assms(2) by (simp add: inputValue_of_def rollWindow_circular)
  next
    case False
    then have "32 \<le> a" "a + 32 \<le> int (length ?m)" "32 \<le> b" "b + 32 \<le> int (length ?m)"
      using assms(1) by (simp_all add: features_ok_def)
    then have "py_slice ?m (a - 32) (a + 32) = circularWindow ?m a"
      "py_slice ?m (b - 32) (b + 32) = circularWindow ?m b"
      by (simp_all add: py_slice_circular)
    then show ?thesis
      using v False by (simp add: inputValue_of_def)
  qed
qed

lemma length_rollWindow: "length (rollWindow m a) = 2 * min (length m) 32"
  by (simp add: rollWindow_def length_torch_roll)

lemma set_torch_roll: "set (torch_roll x s) = set x"
  by (simp add: torch_roll_def)

lemma rollWindow_rows:
  assumes "list_all (\<lambda>r. length r = n) m"
  shows "list_all (\<lambda>r. length r = n) (rollWindow m a)"
proof -
  have "set (rollWindow m a) \<subseteq> set m"
    using set_take_subset [of 32 "torch_roll m (a * -1 + 32)"]
      set_take_subset [of 32 "torch_roll m (a * -1)"]
    by (simp add: rollWindow_def set_torch_roll)
  then show ?thesis using assms by (auto simp: list_all_iff)
qed

lemma inputValue_of_short:
  assumes "features_ok d" "length (MFCC d) < 32"
  shows "inputValue_of d a b = Inl RuntimeError"
proof -
  let ?m = "MFCC d"
  have edge: "a < 32 \<or> b < 32 \<or> a + 32 > MFCCLen d \<or> b + 32 > MFCCLen d"
    using assms by (simp add: features_ok_def) linarith
  have rows: "list_all (\<lambda>r. length r = 32) (rollWindow ?m a @ rollWindow ?m b)"
    using assms(1) by (simp add: features_ok_def rollWindow_rows)
  have "length (rollWindow ?m a @ rollWindow ?m b) \<noteq> 128"
    using assms(2) by (simp add: length_rollWindow)
  then have "view4 (2, 1, 64, 32) (rollWindow ?m a @ rollWindow ?m b) = Inl RuntimeError"
    using rows by (intro view4_wrong_size)
  then show ?thesis using edge by (simp add: inputValue_of_def)
qed

lemma getitem_training:
  assumes "features_ok d" "32 \<le> length (MFCC d)" "\<not> preview d"
    and "i = (if i0 < 0 then count d + i0 else i0)"
    and "(s, g') = (if shiftRandom d then randint 0 1 g else (0, g))"
    and "audioIdx d i s = Inr a" "audioIdx d (i + 1) s = Inr b"
  shows "getitem d ROOT_PATH fs g i0 =
           (g', fst (targetValue_of ROOT_PATH fs i),
            case snd (targetValue_of ROOT_PATH fs i) of
              Inl e \<Rightarrow> Inl e
            | Inr targetValue \<Rightarrow>
                Inr ([i], Paired [[circularWindow (MFCC d) a], [circularWindow (MFCC d) b]],
                     map (map (\<lambda>x. x * 0.5)) targetValue))"
proof -
  have iv: "inputValue_of d a b = Inr [[circularWindow (MFCC d) a], [circularWindow (MFCC d) b]]"
    using assms(1,2) by (rule inputValue_of_circular)
  obtain reads t where t: "targetValue_of ROOT_PATH fs i = (reads, t)"
    by (cases "targetValue_of ROOT_PATH fs i")
  show ?thesis
    using assms(3,6,7) iv t
    unfolding getitem_def assms(4) [symmetric] Let_def assms(5) [symmetric]
    by (cases t) simp_all
qed

lemma getitem_preview:
  assumes "features_ok d" "32 \<le> length (MFCC d)" "preview d"
    and "i = (if i0 < 0 then count d + i0 else i0)"
    and "(s, g') = (if shiftRandom d then randint 0 1 g else (0, g))"
    and "audioIdx d i s = Inr a" "audioIdx d (i + 1) s = Inr b"
  shows "getitem d ROOT_PATH fs g i0 =
           (g', [], Inr ([i], Single [circularWindow (MFCC d) a], torch_zeros 1 OUTPUT_COUNT))"
proof -
  have iv: "inputValue_of d a b = Inr [[circularWindow (MFCC d) a], [circularWindow (MFCC d) b]]"
    using assms(1,2) by (rule inputValue_of_circular)
  show ?thesis
    using assms(3,6,7) iv
    unfolding getitem_def assms(4) [symmetric] Let_def assms(5) [symmetric]
    by simp
qed

section \<open>File names\<close>

lemma str_nat_digits1: "n < 10 \<Longrightarrow> str_nat n = [''0123456789'' ! n]"
  by (subst str_nat.simps) simp

lemma str_nat_step: "10 \<le> n \<Longrightarrow> str_nat n = str_nat (n div 10) @ [''0123456789'' ! (n mod 10)]"
  by (subst str_nat.simps) simp

lemma format_05d_zero_padded5:
  assumes "0 \<le> n" "n < 100000"
  shows "format_05d n = zero_padded5 (nat n)"
proof -
  define k where "k = nat n"
  have k: "k < 100000" "nat \<bar>n\<bar> = k" "\<not> n < 0" using assms by (simp_all add: k_def)
  consider "k < 10" | "10 \<le> k" "k < 100" | "100 \<le> k" "k < 1000"
    | "1000 \<le> k" "k < 10000" | "10000 \<le> k" "k < 100000"
    using k(1) by linarith
  note cases = this
  have rep: "replicate 4 c = [c, c, c, c]" "replicate 3 c = [c, c, c]" "replicate 2 c = [c, c]"
    for c :: char by (simp_all add: numeral_eq_Suc)
  from cases have "replicate (5 - length (str_nat k)) CHR ''0'' @ str_nat k = zero_padded5 k"
  proof cases
    case 1
    show ?thesis using 1 by (simp add: rep str_nat_digits1 zero_padded5_def)
  next
    case 2
    then have "k div 10 < 10" by simp
    then show ?thesis using 2
      by (simp add: rep str_nat_step str_nat_digits1 zero_padded5_def)
  next
    case 3
    then have "k div 10 div 10 < 10" "10 \<le> k div 10" by simp_all
    then show ?thesis using 3
      by (simp add: rep str_nat_step str_nat_digits1 zero_padded5_def div_mult2_eq [symmetric])
  next
    case 4
    then have "k div 10 div 10 div 10 < 10" "10 \<le> k div 10 div 10" "10 \<le> k div 10" by simp_all
    then show ?thesis using 4
      by (simp add: rep str_nat_step str_nat_digits1 zero_padded5_def div_mult2_eq [symmetric])
  next
    case 5
    then have "k div 10 div 10 div 10 div 10 < 10" "10 \<le> k div 10 div 10 div 10"
      "10 \<le> k div 10 div 10" "10 \<le> k div 10" by simp_all
    then show ?thesis using 5
      by (simp add: rep str_nat_step str_nat_digits1 zero_padded5_def div_mult2_eq [symmetric])
  qed
  then show ?thesis
    using k(2,3) by (simp add: format_05d_def Let_def k_def)
qed

section \<open>Facts about the example inputs\<close>

lemma count_init:
  "count (Data_init sr p (n, r) rs m) =
     py_int (float_mul animFPS (fl_div (int (if r \<noteq> 16000 then rs r n else n)) 16000))"
  by (simp add: Data_init_def)

lemma animFPS_value: "animFPS = (8435805052018360, 281474976710656)"
  by (simp add: animFPS_def float_eval)

lemma features_ok_init:
  "list_all (\<lambda>r. length r = 32) mfcc \<Longrightarrow> features_ok (Data_init sr p l rs mfcc)"
  by (simp add: features_ok_def Data_init_def Let_def split: prod.splits)

lemma rampFeatures_rows: "list_all (\<lambda>r. length r = 32) (rampFeatures T)"
  by (simp add: rampFeatures_def list_all_iff)

lemma length_rampFeatures: "length (rampFeatures T) = T"
  by (simp add: rampFeatures_def)

lemma MFCC_init: "MFCC (Data_init sr p l rs mfcc) = mfcc"
  by (simp add: Data_init_def Let_def split: prod.splits)

lemma MFCCLen_init: "MFCCLen (Data_init sr p l rs mfcc) = int (length mfcc)"
  by (simp add: Data_init_def Let_def split: prod.splits)

lemma modes_init:
  "preview (Data_init sr p l rs mfcc) = (p \<noteq> None)"
  "shiftRandom (Data_init sr p l rs mfcc) = (sr \<and> p = None)"
  by (simp_all add: Data_init_def Let_def split: prod.splits)

lemmas init_simps =
  features_ok_init rampFeatures_rows MFCC_init MFCCLen_init modes_init length_rampFeatures

lemma shortClip_count: "count shortClip = 2"
  by (simp add: shortClip_def count_init animFPS_value) (simp add: float_eval)

lemma clip40_count: "count clip40 = 2"
  by (simp add: clip40_def count_init animFPS_value) (simp add: float_eval)

lemma clip44_count: "count clip44 = 3"
  by (simp add: clip44_def count_init animFPS_value) (simp add: float_eval)

lemma previewClip_count: "count previewClip = 2"
  by (simp add: previewClip_def count_init animFPS_value) (simp add: float_eval)

lemma longClip_count: "count longClip = 982"
  by (simp add: longClip_def count_init animFPS_value) (simp add: float_eval)

lemma oneSecond_count: "count oneSecond = 29"
  by (simp add: oneSecond_def count_init animFPS_value) (simp add: float_eval)

lemma shortClip_facts:
  "features_ok shortClip" "length (MFCC shortClip) = 26" "count shortClip = 2"
  "shiftRandom shortClip" "\<not> preview shortClip" "MFCCLen shortClip = 26"
  by (simp_all add: shortClip_count) (simp_all add: shortClip_def init_simps)

lemma clip40_facts:
  "features_ok clip40" "length (MFCC clip40) = 40" "count clip40 = 2"
  "shiftRandom clip40" "\<not> preview clip40" "MFCCLen clip40 = 40"
  by (simp_all add: clip40_count) (simp_all add: clip40_def init_simps)

lemma clip44_facts:
  "features_ok clip44" "length (MFCC clip44) = 44" "count clip44 = 3"
  "\<not> shiftRandom clip44" "\<not> preview clip44" "MFCCLen clip44 = 44"
  by (simp_all add: clip44_count) (simp_all add: clip44_def init_simps)

lemma previewClip_facts:
  "features_ok previewClip" "length (MFCC previewClip) = 40" "count previewClip = 2"
  "\<not> shiftRandom previewClip" "preview previewClip" "MFCCLen previewClip = 40"
  by (simp_all add: previewClip_count) (simp_all add: previewClip_def init_simps)

lemma shortPreviewClip_count: "count shortPreviewClip = 2"
  by (simp add: shortPreviewClip_def count_init animFPS_value) (simp add: float_eval)

lemma shortPreviewClip_facts:
  "features_ok shortPreviewClip" "length (MFCC shortPreviewClip) = 26"
  "count shortPreviewClip = 2" "\<not> shiftRandom shortPreviewClip"
  "preview shortPreviewClip" "MFCCLen shortPreviewClip = 26"
  by (simp_all add: shortPreviewClip_count) (simp_all add: shortPreviewClip_def init_simps)

lemma longClip_facts:
  "features_ok longClip" "length (MFCC longClip) = 16384" "count longClip = 982"
  "shiftRandom longClip" "\<not> preview longClip" "MFCCLen longClip = 16384"
  by (simp_all add: longClip_count) (simp_all add: longClip_def init_simps)

lemma audioIdx_value:
  assumes "count d = c" "c \<noteq> 0" "MFCCLen d = T"
  shows "audioIdx d i s =
           Inr (py_int (float_add (float_mul (float_of_int i) (fl_div T c)) (float_of_int s)))"
  using assms by (simp add: audioIdx_def)

lemma audioIdx_clip40:
  "audioIdx clip40 0 0 = Inr 0" "audioIdx clip40 1 0 = Inr 20"
  "audioIdx clip40 0 1 = Inr 1" "audioIdx clip40 1 1 = Inr 21"
  by (simp_all add: audioIdx_value [OF clip40_facts(3) _ clip40_facts(6)] float_eval)

lemma audioIdx_previewClip:
  "audioIdx previewClip 0 0 = Inr 0" "audioIdx previewClip 1 0 = Inr 20"
  by (simp_all add: audioIdx_value [OF previewClip_facts(3) _ previewClip_facts(6)] float_eval)

lemma audioIdx_clip44:
  "audioIdx clip44 1 0 = Inr 14" "audioIdx clip44 2 0 = Inr 29" "audioIdx clip44 3 0 = Inr 44"
  by (simp_all add: audioIdx_value [OF clip44_facts(3) _ clip44_facts(6)] float_eval)

lemma audioIdx_longClip:
  "audioIdx longClip 490 0 = Inr 8175" "audioIdx longClip 491 0 = Inr 8191"
  "audioIdx longClip 490 1 = Inr 8176" "audioIdx longClip 491 1 = Inr 8193"
  by (simp_all add: audioIdx_value [OF longClip_facts(3) _ longClip_facts(6)] float_eval)

lemma randint_01: "fst (randint 0 1 g) = 0 \<or> fst (randint 0 1 g) = 1"
  by (simp add: randint_def) linarith

lemma randint_zeroDraws: "randint 0 1 zeroDraws = (0, zeroDraws)"
  by (simp add: randint_def zeroDraws_def)

lemma randint_oneDraws: "randint 0 1 oneDraws = (1, oneDraws)"
  by (simp add: randint_def oneDraws_def)

section \<open>Targets and short sequences\<close>

lemma OUTPUT_COUNT_pos: "0 < OUTPUT_COUNT"
  by (simp add: OUTPUT_COUNT_def)

lemma targetValue_of_present:
  assumes "fs (maskPath ROOT_PATH (i + 1)) = Some t1" "fs (maskPath ROOT_PATH (i + 2)) = Some t2"
    and "length t1 = OUTPUT_COUNT" "length t2 = OUTPUT_COUNT"
  shows "targetValue_of ROOT_PATH fs i =
           ([maskPath ROOT_PATH (i + 1), maskPath ROOT_PATH (i + 2)], Inr [t1, t2])"
proof -
  have "chunks OUTPUT_COUNT (t1 @ t2) = [t1, t2]"
    using assms(3,4) OUTPUT_COUNT_pos by (intro chunks_two)
  then show ?thesis
    using assms OUTPUT_COUNT_pos by (simp add: targetValue_of_def np_load_def view_rows_def)
qed

lemma audioIdx_Inr:
  "count d \<noteq> 0 \<Longrightarrow>
     audioIdx d i s =
       Inr (py_int (float_add (float_mul (float_of_int i) (fl_div (MFCCLen d) (count d)))
                      (float_of_int s)))"
  by (simp add: audioIdx_def)

lemma getitem_short:
  assumes "features_ok d" "length (MFCC d) < 32" "count d \<noteq> 0"
  shows "snd (getitem d ROOT_PATH fs g i0) = ([], Inl RuntimeError)"
  using assms
  by (simp add: getitem_def Let_def audioIdx_Inr inputValue_of_short split: prod.splits)

section \<open>The window at the boundary of the sequence\<close>

text \<open>
  C1 (amended). Let the feature sequence have at least 32 rows and the frame count be
  non-zero, in non-preview mode, and let \<open>a\<close> and \<open>b\<close> be the audio indices of frame
  \<open>i\<close> and frame \<open>i + 1\<close>. When the window of one of them leaves the range from 32 to
  \<open>T - 32\<close>, \<open>Data.__getitem__\<close> builds both windows without raising, and each is the
  circular window of the sequence: rows \<open>a - 32\<close> up to \<open>a + 32\<close> taken modulo \<open>T\<close>.
  The only exception the call can still raise comes from loading the targets.
\<close>

theorem getitem_edge_window_circular:
  assumes "features_ok d" and "32 \<le> length (MFCC d)" and "\<not> preview d"
    and "i = (if i0 < 0 then count d + i0 else i0)"
    and "(s, g') = (if shiftRandom d then randint 0 1 g else (0, g))"
    and "audioIdx d i s = Inr a" and "audioIdx d (i + 1) s = Inr b"
    and "a < 32 \<or> b < 32 \<or> a + 32 > MFCCLen d \<or> b + 32 > MFCCLen d"
  shows "getitem d ROOT_PATH fs g i0 =
           (g', fst (targetValue_of ROOT_PATH fs i),
            case snd (targetValue_of ROOT_PATH fs i) of
              Inl e \<Rightarrow> Inl e
            | Inr targetValue \<Rightarrow>
                Inr ([i], Paired [[circularWindow (MFCC d) a], [circularWindow (MFCC d) b]],
                     map (map (\<lambda>x. x * 0.5)) targetValue))"
  using assms(1-7) by (rule getitem_training)

text \<open>The theorem at frame 0 of a sequence of 40 rows and 2 frames.\<close>

theorem getitem_edge_window_circular_witness:
  "features_ok clip40 \<and> 32 \<le> length (MFCC clip40) \<and> \<not> preview clip40
   \<and> (0::int) = (if (0::int) < 0 then count clip40 + 0 else 0)
   \<and> (0, zeroDraws) = (if shiftRandom clip40 then randint 0 1 zeroDraws else (0, zeroDraws))
   \<and> audioIdx clip40 0 0 = Inr 0 \<and> audioIdx clip40 (0 + 1) 0 = Inr 20
   \<and> ((0::int) < 32 \<or> (20::int) < 32 \<or> 0 + 32 > MFCCLen clip40 \<or> 20 + 32 > MFCCLen clip40)
   \<and> getitem clip40 rootPath fullScaleFiles zeroDraws 0 =
        (zeroDraws, fst (targetValue_of rootPath fullScaleFiles 0),
         case snd (targetValue_of rootPath fullScaleFiles 0) of
           Inl e \<Rightarrow> Inl e
         | Inr targetValue \<Rightarrow>
             Inr ([0], Paired [[circularWindow (MFCC clip40) 0], [circularWindow (MFCC clip40) 20]],
                  map (map (\<lambda>x. x * 0.5)) targetValue))"
proof -
  have h: "features_ok clip40" "32 \<le> length (MFCC clip40)" "\<not> preview clip40"
    "(0::int) = (if (0::int) < 0 then count clip40 + 0 else 0)"
    "(0, zeroDraws) = (if shiftRandom clip40 then randint 0 1 zeroDraws else (0, zeroDraws))"
    "audioIdx clip40 0 0 = Inr 0" "audioIdx clip40 (0 + 1) 0 = Inr 20"
    "(0::int) < 32 \<or> (20::int) < 32 \<or> 0 + 32 > MFCCLen clip40 \<or> 20 + 32 > MFCCLen clip40"
    by (simp_all add: clip40_facts audioIdx_clip40 randint_zeroDraws)
  show ?thesis
    using h getitem_edge_window_circular [OF h, of rootPath fullScaleFiles] by blast
qed

text \<open>
  With fewer than 32 rows the call raises: a waveform of 1068 samples has 2 frames and
  26 feature rows, index 0 is its one valid index, every target file is present, and
  the view of the 104 rows taken as (2, 1, 64, 32) fails before any file is read.
\<close>

theorem getitem_edge_window_counterexample:
  "\<not> preview shortClip \<and> len shortClip = 1 \<and> 32 > MFCCLen shortClip
   \<and> snd (getitem shortClip rootPath fullScaleFiles zeroDraws 0) = ([], Inl RuntimeError)"
  using getitem_short [of shortClip rootPath fullScaleFiles zeroDraws 0]
  by (simp add: shortClip_facts len_def)

section \<open>Shapes and targets of a sample\<close>

lemma shape4_pair:
  assumes "length w1 = 64" "length w2 = 64"
    "list_all (\<lambda>r. length r = 32) w1" "list_all (\<lambda>r. length r = 32) w2"
  shows "shape4 [[w1], [w2]] (2, 1, 64, 32)"
  using assms by (simp add: shape4_def shape3_def shape2_def)

lemma shape4_circular:
  assumes "features_ok d" "32 \<le> length (MFCC d)"
  shows "shape4 [[circularWindow (MFCC d) a], [circularWindow (MFCC d) b]] (2, 1, 64, 32)"
proof -
  have ne: "MFCC d \<noteq> []" using assms(2) by (cases "MFCC d") simp_all
  show ?thesis
    using assms(1) ne
    by (intro shape4_pair) (simp_all add: length_circularWindow circularWindow_rows features_ok_def)
qed

lemma getitem_valid_index:
  assumes "features_ok d" and "32 \<le> length (MFCC d)" and "\<not> preview d"
    and "0 \<le> i" and "i < count d - 1"
    and "fs (maskPath ROOT_PATH (i + 1)) = Some t1" and "fs (maskPath ROOT_PATH (i + 2)) = Some t2"
    and "length t1 = OUTPUT_COUNT" and "length t2 = OUTPUT_COUNT"
  shows "\<exists>s g' a b. (s, g') = (if shiftRandom d then randint 0 1 g else (0, g))
           \<and> audioIdx d i s = Inr a \<and> audioIdx d (i + 1) s = Inr b
           \<and> getitem d ROOT_PATH fs g i =
               (g', [maskPath ROOT_PATH (i + 1), maskPath ROOT_PATH (i + 2)],
                Inr ([i], Paired [[circularWindow (MFCC d) a], [circularWindow (MFCC d) b]],
                     [map (\<lambda>x. x * 0.5) t1, map (\<lambda>x. x * 0.5) t2]))"
proof -
  obtain s g' where sg: "(s, g') = (if shiftRandom d then randint 0 1 g else (0, g))"
    by (metis surj_pair)
  have c: "count d \<noteq> 0" using assms(4,5) by simp
  obtain a b where ab: "audioIdx d i s = Inr a" "audioIdx d (i + 1) s = Inr b"
    using c by (simp add: audioIdx_def)
  have i: "i = (if i < 0 then count d + i else i)" using assms(4) by simp
  have t: "targetValue_of ROOT_PATH fs i =
             ([maskPath ROOT_PATH (i + 1), maskPath ROOT_PATH (i + 2)], Inr [t1, t2])"
    using assms(6-9) by (rule targetValue_of_present)
  have "getitem d ROOT_PATH fs g i =
          (g', [maskPath ROOT_PATH (i + 1), maskPath ROOT_PATH (i + 2)],
           Inr ([i], Paired [[circularWindow (MFCC d) a], [circularWindow (MFCC d) b]],
                [map (\<lambda>x. x * 0.5) t1, map (\<lambda>x. x * 0.5) t2]))"
    using getitem_training [OF assms(1-3) i sg ab, of ROOT_PATH fs] by (simp add: t)
  then show ?thesis using sg ab by blast
qed

text \<open>
  C2 (amended). Let the feature sequence have at least 32 rows, of 32 coefficients
  each, and let the target files of the frames \<open>i + 1\<close> and \<open>i + 2\<close> exist and hold
  \<open>OUTPUT_COUNT\<close> values each. Then for every valid frame index \<open>i\<close>, from 0 up to
  \<open>count - 1\<close> excluded, in non-preview mode, \<open>Data.__getitem__\<close> returns an input of
  shape (2, 1, 64, 32) and a target of shape (2, \<open>OUTPUT_COUNT\<close>) with
  \<open>OUTPUT_COUNT = 8320 * 3\<close>, whatever \<open>i\<close> is.
\<close>

theorem getitem_shapes:
  assumes "features_ok d" and "32 \<le> length (MFCC d)" and "\<not> preview d"
    and "0 \<le> i" and "i < count d - 1"
    and "fs (maskPath ROOT_PATH (i + 1)) = Some t1" and "fs (maskPath ROOT_PATH (i + 2)) = Some t2"
    and "length t1 = OUTPUT_COUNT" and "length t2 = OUTPUT_COUNT"
  shows "\<exists>g' reads inputValue targetValue.
           getitem d ROOT_PATH fs g i = (g', reads, Inr ([i], Paired inputValue, targetValue))
           \<and> shape4 inputValue (2, 1, 64, 32)
           \<and> shape2 targetValue (2, OUTPUT_COUNT)
           \<and> OUTPUT_COUNT = 8320 * 3"
proof -
  obtain s g' a b where
    "getitem d ROOT_PATH fs g i =
       (g', [maskPath ROOT_PATH (i + 1), maskPath ROOT_PATH (i + 2)],
        Inr ([i], Paired [[circularWindow (MFCC d) a], [circularWindow (MFCC d) b]],
             [map (\<lambda>x. x * 0.5) t1, map (\<lambda>x. x * 0.5) t2]))"
    using getitem_valid_index [OF assms] by blast
  moreover have "shape4 [[circularWindow (MFCC d) a], [circularWindow (MFCC d) b]] (2, 1, 64, 32)"
    using assms(1,2) by (rule shape4_circular)
  moreover have "shape2 [map (\<lambda>x. x * 0.5) t1, map (\<lambda>x. x * 0.5) t2] (2, OUTPUT_COUNT)"
    using assms(8,9) by (simp add: shape2_def)
  ultimately show ?thesis by (simp add: OUTPUT_COUNT_def)
qed

lemma fullScaleFiles_present: "fullScaleFiles p = Some (replicate OUTPUT_COUNT 2)"
  by (simp add: fullScaleFiles_def)

text \<open>The theorem at index 0 of a sequence of 40 rows and 2 frames.\<close>

theorem getitem_shapes_witness:
  "features_ok clip40 \<and> 32 \<le> length (MFCC clip40) \<and> \<not> preview clip40
   \<and> (0::int) \<le> 0 \<and> 0 < count clip40 - 1
   \<and> fullScaleFiles (maskPath rootPath (0 + 1)) = Some (replicate OUTPUT_COUNT 2)
   \<and> fullScaleFiles (maskPath rootPath (0 + 2)) = Some (replicate OUTPUT_COUNT 2)
   \<and> length (replicate OUTPUT_COUNT (2::real)) = OUTPUT_COUNT
   \<and> (\<exists>g' reads inputValue targetValue.
         getitem clip40 rootPath fullScaleFiles zeroDraws 0 =
           (g', reads, Inr ([0], Paired inputValue, targetValue))
         \<and> shape4 inputValue (2, 1, 64, 32)
         \<and> shape2 targetValue (2, OUTPUT_COUNT)
         \<and> OUTPUT_COUNT = 8320 * 3)"
proof -
  have h: "features_ok clip40" "32 \<le> length (MFCC clip40)" "\<not> preview clip40"
    "(0::int) \<le> 0" "0 < count clip40 - 1"
    "fullScaleFiles (maskPath rootPath (0 + 1)) = Some (replicate OUTPUT_COUNT 2)"
    "fullScaleFiles (maskPath rootPath (0 + 2)) = Some (replicate OUTPUT_COUNT 2)"
    "length (replicate OUTPUT_COUNT (2::real)) = OUTPUT_COUNT"
    "length (replicate OUTPUT_COUNT (2::real)) = OUTPUT_COUNT"
    by (simp_all add: clip40_facts fullScaleFiles_present)
  show ?thesis
    using h getitem_shapes [OF h, of zeroDraws] by blast
qed

text \<open>
  Without the 32 rows the call returns no tensors: on the clip of 1068 samples, 2
  frames and 26 rows, in non-preview mode and with both target files present and of
  \<open>OUTPUT_COUNT\<close> values, the only valid index 0 raises \<open>RuntimeError\<close>.
\<close>

theorem getitem_shapes_counterexample:
  "features_ok shortClip \<and> \<not> preview shortClip \<and> (0::int) \<le> 0 \<and> 0 < count shortClip - 1
   \<and> fullScaleFiles (maskPath rootPath (0 + 1)) = Some (replicate OUTPUT_COUNT 2)
   \<and> fullScaleFiles (maskPath rootPath (0 + 2)) = Some (replicate OUTPUT_COUNT 2)
   \<and> length (replicate OUTPUT_COUNT (2::real)) = OUTPUT_COUNT
   \<and> length (MFCC shortClip) = 26
   \<and> snd (snd (getitem shortClip rootPath fullScaleFiles oneDraws 0)) = Inl RuntimeError"
  using getitem_short [of shortClip rootPath fullScaleFiles oneDraws 0]
  by (simp add: shortClip_facts fullScaleFiles_present)

lemma halved_in_range:
  assumes "list_all (\<lambda>x. - 2 \<le> x \<and> x \<le> (2::real)) t"
  shows "list_all (\<lambda>y. - 1 \<le> y \<and> y \<le> 1) (map (\<lambda>x. x * 0.5) t)"
  using assms by (induction t) auto

lemma maskPath_zero_padded5:
  assumes "0 \<le> n" "n < 100000"
  shows "maskPath ROOT_PATH n =
           os_path_join ROOT_PATH
             [''data'', ''samSoar'', ''maskSeq'', ''mask.'' @ zero_padded5 (nat n) @ ''.npy'']"
  using assms by (simp add: maskPath_def format_05d_zero_padded5)

text \<open>
  C3 (amended). Let the feature sequence have at least 32 rows, of 32 coefficients
  each, and let the target files of the frames \<open>i + 1\<close> and \<open>i + 2\<close> exist and hold
  \<open>OUTPUT_COUNT\<close> values each. Then for every valid sampler index \<open>i\<close>, from 0 up to
  \<open>count - 1\<close> excluded, in non-preview mode, \<open>Data.__getitem__\<close> reads exactly two
  files, the ones named with the frame numbers \<open>i + 1\<close> and \<open>i + 2\<close> formatted as
  \<open>{:05d}\<close> (five digits padded with zeros, for numbers below 100000), in this order;
  the target is the first content followed by the second, as 2 rows of \<open>OUTPUT_COUNT\<close>
  values, each value multiplied by 0.5; raw values between -2 and 2 give target values
  between -1 and 1.
\<close>

theorem getitem_targets:
  assumes "features_ok d" and "32 \<le> length (MFCC d)" and "\<not> preview d"
    and "0 \<le> i" and "i < count d - 1"
    and "fs (maskPath ROOT_PATH (i + 1)) = Some t1" and "fs (maskPath ROOT_PATH (i + 2)) = Some t2"
    and "length t1 = OUTPUT_COUNT" and "length t2 = OUTPUT_COUNT"
  shows "\<exists>g' inputValue targetValue.
           getitem d ROOT_PATH fs g i =
             (g', [maskPath ROOT_PATH (i + 1), maskPath ROOT_PATH (i + 2)],
              Inr ([i], inputValue, targetValue))
           \<and> targetValue = [map (\<lambda>x. x * 0.5) t1, map (\<lambda>x. x * 0.5) t2]
           \<and> (list_all (\<lambda>x. - 2 \<le> x \<and> x \<le> 2) (t1 @ t2)
                \<longrightarrow> list_all (list_all (\<lambda>y. - 1 \<le> y \<and> y \<le> 1)) targetValue)
           \<and> (i + 2 < 100000
                \<longrightarrow> maskPath ROOT_PATH (i + 1) =
                      os_path_join ROOT_PATH
                        [''data'', ''samSoar'', ''maskSeq'',
                         ''mask.'' @ zero_padded5 (nat (i + 1)) @ ''.npy'']
                  \<and> maskPath ROOT_PATH (i + 2) =
                      os_path_join ROOT_PATH
                        [''data'', ''samSoar'', ''maskSeq'',
                         ''mask.'' @ zero_padded5 (nat (i + 2)) @ ''.npy''])"
proof -
  obtain s g' a b where
    "getitem d ROOT_PATH fs g i =
       (g', [maskPath ROOT_PATH (i + 1), maskPath ROOT_PATH (i + 2)],
        Inr ([i], Paired [[circularWindow (MFCC d) a], [circularWindow (MFCC d) b]],
             [map (\<lambda>x. x * 0.5) t1, map (\<lambda>x. x * 0.5) t2]))"
    using getitem_valid_index [OF assms] by blast
  moreover have "list_all (\<lambda>x. - 2 \<le> x \<and> x \<le> 2) (t1 @ t2)
      \<longrightarrow> list_all (list_all (\<lambda>y. - 1 \<le> y \<and> y \<le> 1))
            [map (\<lambda>x. x * 0.5) t1, map (\<lambda>x. x * 0.5) t2]"
    using halved_in_range [of t1] halved_in_range [of t2] by simp
  moreover have "i + 2 < 100000
      \<longrightarrow> maskPath ROOT_PATH (i + 1) =
            os_path_join ROOT_PATH
              [''data'', ''samSoar'', ''maskSeq'', ''mask.'' @ zero_padded5 (nat (i + 1)) @ ''.npy'']
        \<and> maskPath ROOT_PATH (i + 2) =
            os_path_join ROOT_PATH
              [''data'', ''samSoar'', ''maskSeq'', ''mask.'' @ zero_padded5 (nat (i + 2)) @ ''.npy'']"
    using assms(4) by (simp add: maskPath_zero_padded5)
  ultimately show ?thesis by blast
qed

lemma maskPath_rootPath:
  "maskPath rootPath 1 = ''/home/user/sandbox/surat/data/samSoar/maskSeq/mask.00001.npy''"
  "maskPath rootPath 2 = ''/home/user/sandbox/surat/data/samSoar/maskSeq/mask.00002.npy''"
  by (simp_all add: maskPath_zero_padded5 zero_padded5_def os_path_join_def path_join2_def
      rootPath_def)

text \<open>
  The theorem at sampler index 0: the files read are \<open>mask.00001.npy\<close> and
  \<open>mask.00002.npy\<close>, and raw values of 2 become 1.
\<close>

theorem getitem_targets_witness:
  "features_ok clip40 \<and> 32 \<le> length (MFCC clip40) \<and> \<not> preview clip40
   \<and> (0::int) \<le> 0 \<and> 0 < count clip40 - 1
   \<and> fullScaleFiles (maskPath rootPath (0 + 1)) = Some (replicate OUTPUT_COUNT 2)
   \<and> fullScaleFiles (maskPath rootPath (0 + 2)) = Some (replicate OUTPUT_COUNT 2)
   \<and> length (replicate OUTPUT_COUNT (2::real)) = OUTPUT_COUNT
   \<and> list_all (\<lambda>x. - 2 \<le> x \<and> x \<le> 2) (replicate OUTPUT_COUNT (2::real) @ replicate OUTPUT_COUNT 2)
   \<and> (0::int) + 2 < 100000
   \<and> (\<exists>g' inputValue.
         getitem clip40 rootPath fullScaleFiles zeroDraws 0 =
           (g', [''/home/user/sandbox/surat/data/samSoar/maskSeq/mask.00001.npy'',
                 ''/home/user/sandbox/surat/data/samSoar/maskSeq/mask.00002.npy''],
            Inr ([0], inputValue, [replicate OUTPUT_COUNT 1, replicate OUTPUT_COUNT 1])))
   \<and> list_all (list_all (\<lambda>y. - 1 \<le> y \<and> y \<le> (1::real)))
         [replicate OUTPUT_COUNT 1, replicate OUTPUT_COUNT 1]"
proof -
  have h: "features_ok clip40" "32 \<le> length (MFCC clip40)" "\<not> preview clip40"
    "(0::int) \<le> 0" "0 < count clip40 - 1"
    "fullScaleFiles (maskPath rootPath (0 + 1)) = Some (replicate OUTPUT_COUNT 2)"
    "fullScaleFiles (maskPath rootPath (0 + 2)) = Some (replicate OUTPUT_COUNT 2)"
    "length (replicate OUTPUT_COUNT (2::real)) = OUTPUT_COUNT"
    "length (replicate OUTPUT_COUNT (2::real)) = OUTPUT_COUNT"
    by (simp_all add: clip40_facts fullScaleFiles_present)
  have r: "list_all (\<lambda>x. - 2 \<le> x \<and> x \<le> 2) (replicate OUTPUT_COUNT (2::real) @ replicate OUTPUT_COUNT 2)"
    by (simp add: list_all_iff)
  obtain g' inputValue targetValue where
    g: "getitem clip40 rootPath fullScaleFiles zeroDraws 0 =
          (g', [maskPath rootPath (0 + 1), maskPath rootPath (0 + 2)],
           Inr ([0], inputValue, targetValue))"
    and t: "targetValue =
          [map (\<lambda>x. x * 0.5) (replicate OUTPUT_COUNT 2), map (\<lambda>x. x * 0.5) (replicate OUTPUT_COUNT 2)]"
    and b: "list_all (\<lambda>x. - 2 \<le> x \<and> x \<le> 2) (replicate OUTPUT_COUNT (2::real) @ replicate OUTPUT_COUNT 2)
          \<longrightarrow> list_all (list_all (\<lambda>y. - 1 \<le> y \<and> y \<le> 1)) targetValue"
    using getitem_targets [OF h, of zeroDraws] by blast
  have t': "targetValue = [replicate OUTPUT_COUNT 1, replicate OUTPUT_COUNT 1]"
    using t by simp
  have p: "maskPath rootPath (0 + 1) =
        ''/home/user/sandbox/surat/data/samSoar/maskSeq/mask.00001.npy''"
    "maskPath rootPath (0 + 2) =
        ''/home/user/sandbox/surat/data/samSoar/maskSeq/mask.00002.npy''"
    by (simp_all add: maskPath_rootPath)
  have "(0::int) + 2 < 100000" by simp
  then show ?thesis
    using h(1-8) r g b unfolding t' p by blast
qed

text \<open>
  Without the 32 rows no file is read: on the clip of 1068 samples, 2 frames and 26
  rows, in non-preview mode and with both target files present, the call at the only
  valid index 0 raises before any \<open>np.load\<close>.
\<close>

theorem getitem_targets_counterexample:
  "features_ok shortClip \<and> \<not> preview shortClip \<and> (0::int) \<le> 0 \<and> 0 < count shortClip - 1
   \<and> fullScaleFiles (maskPath rootPath (0 + 1)) = Some (replicate OUTPUT_COUNT 2)
   \<and> fullScaleFiles (maskPath rootPath (0 + 2)) = Some (replicate OUTPUT_COUNT 2)
   \<and> length (replicate OUTPUT_COUNT (2::real)) = OUTPUT_COUNT
   \<and> length (MFCC shortClip) = 26
   \<and> snd (getitem shortClip rootPath fullScaleFiles zeroDraws 0) = ([], Inl RuntimeError)
   \<and> fst (snd (getitem shortClip rootPath fullScaleFiles zeroDraws 0)) \<noteq>
         [maskPath rootPath (0 + 1), maskPath rootPath (0 + 2)]"
  using getitem_short [of shortClip rootPath fullScaleFiles zeroDraws 0]
  by (simp add: shortClip_facts fullScaleFiles_present)

section \<open>Preview mode\<close>

lemma getitem_preview_reads:
  assumes "preview d"
  shows "fst (snd (getitem d ROOT_PATH fs g i0)) = []"
  using assms
  by (simp add: getitem_def Let_def split: prod.splits sum.splits list.splits)

lemma getitem_preview_files:
  assumes "preview d"
  shows "getitem d ROOT_PATH fs g i0 = getitem d ROOT_PATH fs' g i0"
  using assms
  by (simp add: getitem_def Let_def split: prod.splits sum.splits list.splits)

lemma shape3_circular:
  assumes "features_ok d" "32 \<le> length (MFCC d)"
  shows "shape3 [circularWindow (MFCC d) a] (1, 64, 32)"
proof -
  have ne: "MFCC d \<noteq> []" using assms(2) by (cases "MFCC d") simp_all
  show ?thesis
    using assms(1) ne
    by (simp add: shape3_def shape2_def length_circularWindow circularWindow_rows features_ok_def)
qed

text \<open>
  C7 (amended). In preview mode, for every index, \<open>Data.__getitem__\<close> gives no path to
  \<open>np.load\<close> and its result does not depend on the files, so absent target files
  cause no error; on a feature sequence of at least 32 rows and a non-zero frame count
  it returns one tile of shape (1, 64, 32) and an all-zero target of shape
  (1, \<open>OUTPUT_COUNT\<close>): one row, not the two rows of the non-preview target.
\<close>

theorem getitem_preview_target:
  assumes "preview d"
  shows "fst (snd (getitem d ROOT_PATH fs g i0)) = []
     \<and> getitem d ROOT_PATH fs g i0 = getitem d ROOT_PATH noFiles g i0
     \<and> (features_ok d \<and> 32 \<le> length (MFCC d) \<and> count d \<noteq> 0
          \<longrightarrow> (\<exists>g' i w. getitem d ROOT_PATH fs g i0 =
                           (g', [], Inr ([i], Single w, torch_zeros 1 OUTPUT_COUNT))
                       \<and> shape3 w (1, 64, 32)))
     \<and> torch_zeros 1 OUTPUT_COUNT = [replicate OUTPUT_COUNT 0]
     \<and> shape2 (torch_zeros 1 OUTPUT_COUNT) (1, OUTPUT_COUNT)"
proof -
  have "\<exists>g' i w. getitem d ROOT_PATH fs g i0 =
                     (g', [], Inr ([i], Single w, torch_zeros 1 OUTPUT_COUNT))
                 \<and> shape3 w (1, 64, 32)"
    if ok: "features_ok d" "32 \<le> length (MFCC d)" and c: "count d \<noteq> 0"
  proof -
    define i where "i = (if i0 < 0 then count d + i0 else i0)"
    obtain s g' where sg: "(s, g') = (if shiftRandom d then randint 0 1 g else (0, g))"
      by (metis surj_pair)
    obtain a b where ab: "audioIdx d i s = Inr a" "audioIdx d (i + 1) s = Inr b"
      using c by (simp add: audioIdx_def)
    have "getitem d ROOT_PATH fs g i0 =
            (g', [], Inr ([i], Single [circularWindow (MFCC d) a], torch_zeros 1 OUTPUT_COUNT))"
      using ok assms i_def sg ab by (rule getitem_preview)
    then show ?thesis using shape3_circular [OF ok] by blast
  qed
  moreover have "torch_zeros 1 OUTPUT_COUNT = [replicate OUTPUT_COUNT 0]"
    "shape2 (torch_zeros 1 OUTPUT_COUNT) (1, OUTPUT_COUNT)"
    by (simp_all add: torch_zeros_def shape2_def)
  ultimately show ?thesis
    using getitem_preview_reads [OF assms] getitem_preview_files [OF assms] by blast
qed

lemma getitem_previewClip:
  "getitem previewClip rootPath noFiles zeroDraws 0 =
     (zeroDraws, [],
      Inr ([0], Single [circularWindow (MFCC previewClip) 0], torch_zeros 1 OUTPUT_COUNT))"
  by (rule getitem_preview [where s = 0 and b = 20])
    (simp_all add: previewClip_facts audioIdx_previewClip)

text \<open>The theorem on a preview clip of 40 rows, with and without target files.\<close>

theorem getitem_preview_target_witness:
  "preview previewClip
   \<and> fst (snd (getitem previewClip rootPath fullScaleFiles zeroDraws 0)) = []
   \<and> getitem previewClip rootPath fullScaleFiles zeroDraws 0 =
       getitem previewClip rootPath noFiles zeroDraws 0
   \<and> features_ok previewClip \<and> 32 \<le> length (MFCC previewClip) \<and> count previewClip \<noteq> 0
   \<and> (\<exists>g' i w. getitem previewClip rootPath fullScaleFiles zeroDraws 0 =
                    (g', [], Inr ([i], Single w, torch_zeros 1 OUTPUT_COUNT))
                \<and> shape3 w (1, 64, 32))
   \<and> torch_zeros 1 OUTPUT_COUNT = [replicate OUTPUT_COUNT 0]
   \<and> shape2 (torch_zeros 1 OUTPUT_COUNT) (1, OUTPUT_COUNT)"
proof -
  have h: "preview previewClip"
    and ok: "features_ok previewClip" "32 \<le> length (MFCC previewClip)" "count previewClip \<noteq> 0"
    by (simp_all add: previewClip_facts)
  show ?thesis
    using h ok getitem_preview_target [OF h, of rootPath fullScaleFiles zeroDraws 0] by blast
qed

text \<open>
  The target returned in preview mode does not have the shape (2, \<open>OUTPUT_COUNT\<close>) of
  the non-preview target; and on the preview clip of 26 rows and 2 frames the call at
  the valid index 0 returns no target at all: it raises \<open>RuntimeError\<close>.
\<close>

theorem getitem_preview_target_counterexample:
  "preview previewClip
   \<and> getitem previewClip rootPath noFiles zeroDraws 0 =
       (zeroDraws, [],
        Inr ([0], Single [circularWindow (MFCC previewClip) 0], torch_zeros 1 OUTPUT_COUNT))
   \<and> \<not> shape2 (torch_zeros 1 OUTPUT_COUNT) (2, OUTPUT_COUNT)
   \<and> preview shortPreviewClip \<and> (0::int) \<le> 0 \<and> 0 < len shortPreviewClip
   \<and> length (MFCC shortPreviewClip) = 26
   \<and> snd (getitem shortPreviewClip rootPath noFiles zeroDraws 0) = ([], Inl RuntimeError)"
  using getitem_short [of shortPreviewClip rootPath noFiles zeroDraws 0]
  by (simp add: getitem_previewClip previewClip_facts torch_zeros_def shape2_def
      shortPreviewClip_facts len_def)

section \<open>Negative indices and jitter\<close>

lemma getitem_negative:
  assumes "i0 < 0" "0 \<le> count d + i0"
  shows "getitem d ROOT_PATH fs g i0 = getitem d ROOT_PATH fs g (count d + i0)"
  using assms by (simp add: getitem_def)

lemma maskPath_rootPath_more:
  "maskPath rootPath 3 = ''/home/user/sandbox/surat/data/samSoar/maskSeq/mask.00003.npy''"
  "maskPath rootPath 4 = ''/home/user/sandbox/surat/data/samSoar/maskSeq/mask.00004.npy''"
  by (simp_all add: maskPath_zero_padded5 zero_padded5_def os_path_join_def path_join2_def
      rootPath_def)

lemma targetValue_of_fullScale:
  "targetValue_of rootPath fullScaleFiles i =
     ([maskPath rootPath (i + 1), maskPath rootPath (i + 2)],
      Inr [replicate OUTPUT_COUNT 2, replicate OUTPUT_COUNT 2])"
  by (rule targetValue_of_present) (simp_all add: fullScaleFiles_present)

lemma getitem_clip44:
  assumes "0 \<le> i" "audioIdx clip44 i 0 = Inr a" "audioIdx clip44 (i + 1) 0 = Inr b"
  shows "getitem clip44 rootPath fullScaleFiles zeroDraws i =
     (zeroDraws, [maskPath rootPath (i + 1), maskPath rootPath (i + 2)],
      Inr ([i], Paired [[circularWindow (MFCC clip44) a], [circularWindow (MFCC clip44) b]],
           [replicate OUTPUT_COUNT 1, replicate OUTPUT_COUNT 1]))"
proof -
  have "getitem clip44 rootPath fullScaleFiles zeroDraws i =
          (zeroDraws, fst (targetValue_of rootPath fullScaleFiles i),
            case snd (targetValue_of rootPath fullScaleFiles i) of
              Inl e \<Rightarrow> Inl e
            | Inr targetValue \<Rightarrow>
                Inr ([i], Paired [[circularWindow (MFCC clip44) a], [circularWindow (MFCC clip44) b]],
                     map (map (\<lambda>x. x * 0.5)) targetValue))"
    using assms by (intro getitem_training [where s = 0]) (simp_all add: clip44_facts)
  then show ?thesis by (simp add: targetValue_of_fullScale)
qed

text \<open>
  C5, evaluated. On a clip of 3 frames, whose sampler has the 2 indices 0 and 1, index
  -1 is taken as \<open>count - 1 = 2\<close>: the index tensor is [2], the windows are those of
  frames 2 and 3 and the files read are \<open>mask.00003.npy\<close> and \<open>mask.00004.npy\<close>. Index
  \<open>count - 2 = 1\<close>, the last valid one, gives another sample.
\<close>

theorem getitem_minus_one_is_count_minus_one:
  "count clip44 = 3 \<and> len clip44 = 2
   \<and> getitem clip44 rootPath fullScaleFiles zeroDraws (- 1) =
       (zeroDraws,
        [''/home/user/sandbox/surat/data/samSoar/maskSeq/mask.00003.npy'',
         ''/home/user/sandbox/surat/data/samSoar/maskSeq/mask.00004.npy''],
        Inr ([2], Paired [[circularWindow (MFCC clip44) 29], [circularWindow (MFCC clip44) 44]],
             [replicate OUTPUT_COUNT 1, replicate OUTPUT_COUNT 1]))
   \<and> getitem clip44 rootPath fullScaleFiles zeroDraws (count clip44 - 2) =
       (zeroDraws,
        [''/home/user/sandbox/surat/data/samSoar/maskSeq/mask.00002.npy'',
         ''/home/user/sandbox/surat/data/samSoar/maskSeq/mask.00003.npy''],
        Inr ([1], Paired [[circularWindow (MFCC clip44) 14], [circularWindow (MFCC clip44) 29]],
             [replicate OUTPUT_COUNT 1, replicate OUTPUT_COUNT 1]))
   \<and> getitem clip44 rootPath fullScaleFiles zeroDraws (- 1) \<noteq>
       getitem clip44 rootPath fullScaleFiles zeroDraws (count clip44 - 2)"
proof -
  have "getitem clip44 rootPath fullScaleFiles zeroDraws (- 1) =
          getitem clip44 rootPath fullScaleFiles zeroDraws 2"
    using getitem_negative [of "- 1" clip44 rootPath fullScaleFiles zeroDraws]
    by (simp add: clip44_facts)
  moreover have "getitem clip44 rootPath fullScaleFiles zeroDraws 2 =
       (zeroDraws, [maskPath rootPath (2 + 1), maskPath rootPath (2 + 2)],
        Inr ([2], Paired [[circularWindow (MFCC clip44) 29], [circularWindow (MFCC clip44) 44]],
             [replicate OUTPUT_COUNT 1, replicate OUTPUT_COUNT 1]))"
    by (rule getitem_clip44) (simp_all add: audioIdx_clip44)
  moreover have "getitem clip44 rootPath fullScaleFiles zeroDraws 1 =
       (zeroDraws, [maskPath rootPath (1 + 1), maskPath rootPath (1 + 2)],
        Inr ([1], Paired [[circularWindow (MFCC clip44) 14], [circularWindow (MFCC clip44) 29]],
             [replicate OUTPUT_COUNT 1, replicate OUTPUT_COUNT 1]))"
    by (rule getitem_clip44) (simp_all add: audioIdx_clip44)
  ultimately show ?thesis
    by (simp add: clip44_facts len_def maskPath_rootPath maskPath_rootPath_more)
qed

text \<open>
  The index with the jitter 1 is the index without jitter plus 1, or plus 2 when the
  sum rounds up to the next integer.
\<close>

lemma audioIdx_jitter:
  assumes "features_ok d" "0 < count d" "0 \<le> i" "audioIdx d i 0 = Inr a0" "a0 < 2 ^ 52"
  shows "\<exists>a1. audioIdx d i 1 = Inr a1 \<and> a0 + 1 \<le> a1 \<and> a1 \<le> a0 + 2"
proof -
  define I where "I = float_of_int i"
  define R where "R = fl_div (MFCCLen d) (count d)"
  define p where "p = fst I * fst R"
  define q where "q = snd I * snd R"
  have T: "0 \<le> MFCCLen d" using assms(1) by (simp add: features_ok_def)
  have I: "0 \<le> fst I" "0 < snd I"
    using fl_div_nonneg [of i 1] assms(3) by (simp_all add: I_def float_of_int_def)
  have R: "0 \<le> fst R" "0 < snd R"
    using fl_div_nonneg [OF T assms(2)] by (simp_all add: R_def)
  have p: "0 \<le> p" using I R by (simp add: p_def)
  have q: "0 < q" using I R by (simp add: q_def)
  have X: "float_mul (float_of_int i) (fl_div (MFCCLen d) (count d)) = fl_div p q"
    by (simp add: float_mul_def p_def q_def I_def R_def)
  have c: "count d \<noteq> 0" using assms(2) by simp
  have "audioIdx d i 0 = Inr \<lfloor>dval (fl_div p q)\<rfloor>"
    using c by (simp add: audioIdx_def X float_add_zero [OF p q])
  then have a0: "a0 = \<lfloor>dval (fl_div p q)\<rfloor>" using assms(4) by simp
  then have small: "\<lfloor>dval (fl_div p q)\<rfloor> < 2 ^ 52" using assms(5) by simp
  have "audioIdx d i 1 = Inr (py_int (float_add (fl_div p q) (float_of_int 1)))"
    using c by (simp add: audioIdx_def X)
  then show ?thesis
    using float_add_one [OF p q small] a0 by simp
qed

text \<open>
  C10 (amended). With augmentation enabled, one call of \<open>Data.__getitem__\<close> consumes
  exactly one value of the random source, a jitter \<open>s\<close> that is 0 or 1, and this same
  \<open>s\<close> is added to both positions before they are truncated. Each index is then the
  index without jitter plus \<open>s\<close>, or one more when the double-precision sum rounds up
  to an integer, so the distance of the two windows changes by at most one row. The
  frame index, after the wrap of a negative one, is not negative, and the indices are
  below \<open>2 ^ 52\<close>.
\<close>

theorem getitem_jitter_shared:
  assumes "features_ok d" and "32 \<le> length (MFCC d)" and "shiftRandom d" and "\<not> preview d"
    and "0 < count d" and "i = (if i0 < 0 then count d + i0 else i0)" and "0 \<le> i"
    and "audioIdx d i 0 = Inr a0" and "audioIdx d (i + 1) 0 = Inr b0"
    and "a0 < 2 ^ 52" and "b0 < 2 ^ 52"
  shows "\<exists>s a b. (s = 0 \<or> s = 1)
           \<and> randint 0 1 g = (s, \<lambda>n. g (Suc n))
           \<and> audioIdx d i s = Inr a \<and> audioIdx d (i + 1) s = Inr b
           \<and> a0 + s \<le> a \<and> a \<le> a0 + 2 * s \<and> b0 + s \<le> b \<and> b \<le> b0 + 2 * s
           \<and> getitem d ROOT_PATH fs g i0 =
               (\<lambda>n. g (Suc n), fst (targetValue_of ROOT_PATH fs i),
                case snd (targetValue_of ROOT_PATH fs i) of
                  Inl e \<Rightarrow> Inl e
                | Inr targetValue \<Rightarrow>
                    Inr ([i], Paired [[circularWindow (MFCC d) a], [circularWindow (MFCC d) b]],
                         map (map (\<lambda>x. x * 0.5)) targetValue))"
proof -
  define s where "s = fst (randint 0 1 g)"
  have r: "randint 0 1 g = (s, \<lambda>n. g (Suc n))"
    by (simp add: s_def randint_def)
  have s01: "s = 0 \<or> s = 1" using randint_01 [of g] by (simp add: s_def)
  have i1: "0 \<le> i + 1" using assms(7) by simp
  obtain a where a: "audioIdx d i s = Inr a" "a0 + s \<le> a" "a \<le> a0 + 2 * s"
    using s01 assms(8) audioIdx_jitter [OF assms(1,5,7,8,10)] by auto
  obtain b where b: "audioIdx d (i + 1) s = Inr b" "b0 + s \<le> b" "b \<le> b0 + 2 * s"
    using s01 assms(9) audioIdx_jitter [OF assms(1,5) i1 assms(9,11)] by auto
  have sg: "(s, \<lambda>n. g (Suc n)) = (if shiftRandom d then randint 0 1 g else (0, g))"
    using assms(3) r by simp
  show ?thesis
    using s01 r a b getitem_training [OF assms(1,2,4,6) sg a(1) b(1), of ROOT_PATH fs] by blast
qed

text \<open>The theorem at index 0 with a random source that yields the jitter 1.\<close>

theorem getitem_jitter_shared_witness:
  "features_ok clip40 \<and> 32 \<le> length (MFCC clip40) \<and> shiftRandom clip40 \<and> \<not> preview clip40
   \<and> 0 < count clip40 \<and> (0::int) = (if (0::int) < 0 then count clip40 + 0 else 0) \<and> (0::int) \<le> 0
   \<and> audioIdx clip40 0 0 = Inr 0 \<and> audioIdx clip40 (0 + 1) 0 = Inr 20
   \<and> (0::int) < 2 ^ 52 \<and> (20::int) < 2 ^ 52
   \<and> randint 0 1 oneDraws = (1, oneDraws)
   \<and> audioIdx clip40 0 1 = Inr 1 \<and> audioIdx clip40 (0 + 1) 1 = Inr 21
   \<and> getitem clip40 rootPath fullScaleFiles oneDraws 0 =
       (oneDraws, fst (targetValue_of rootPath fullScaleFiles 0),
        case snd (targetValue_of rootPath fullScaleFiles 0) of
          Inl e \<Rightarrow> Inl e
        | Inr targetValue \<Rightarrow>
            Inr ([0], Paired [[circularWindow (MFCC clip40) 1], [circularWindow (MFCC clip40) 21]],
                 map (map (\<lambda>x. x * 0.5)) targetValue))"
proof -
  have h: "features_ok clip40" "32 \<le> length (MFCC clip40)" "shiftRandom clip40" "\<not> preview clip40"
    "0 < count clip40" "(0::int) = (if (0::int) < 0 then count clip40 + 0 else 0)" "(0::int) \<le> 0"
    "audioIdx clip40 0 0 = Inr 0" "audioIdx clip40 (0 + 1) 0 = Inr 20"
    "(0::int) < 2 ^ 52" "(20::int) < 2 ^ 52"
    by (simp_all add: clip40_facts audioIdx_clip40)
  obtain s a b where s: "randint 0 1 oneDraws = (s, \<lambda>n. oneDraws (Suc n))"
    and a: "audioIdx clip40 0 s = Inr a" and b: "audioIdx clip40 (0 + 1) s = Inr b"
    and g: "getitem clip40 rootPath fullScaleFiles oneDraws 0 =
       (\<lambda>n. oneDraws (Suc n), fst (targetValue_of rootPath fullScaleFiles 0),
        case snd (targetValue_of rootPath fullScaleFiles 0) of
          Inl e \<Rightarrow> Inl e
        | Inr targetValue \<Rightarrow>
            Inr ([0], Paired [[circularWindow (MFCC clip40) a], [circularWindow (MFCC clip40) b]],
                 map (map (\<lambda>x. x * 0.5)) targetValue))"
    using getitem_jitter_shared [OF h, of oneDraws rootPath fullScaleFiles] by blast
  have s1: "s = 1" and o: "(\<lambda>n. oneDraws (Suc n)) = oneDraws"
    using s by (simp_all add: randint_oneDraws)
  have ab: "a = 1" "b = 21"
    using a b by (simp_all add: s1 audioIdx_clip40)
  show ?thesis
    using h g unfolding ab o by (simp add: randint_oneDraws audioIdx_clip40)
qed

lemma getitem_longClip:
  assumes "randint 0 1 g = (s, g)"
    and "audioIdx longClip 490 s = Inr a" "audioIdx longClip 491 s = Inr b"
  shows "getitem longClip rootPath fullScaleFiles g 490 =
     (g, [maskPath rootPath 491, maskPath rootPath 492],
      Inr ([490], Paired [[circularWindow (MFCC longClip) a], [circularWindow (MFCC longClip) b]],
           [replicate OUTPUT_COUNT 1, replicate OUTPUT_COUNT 1]))"
proof -
  have "getitem longClip rootPath fullScaleFiles g 490 =
          (g, fst (targetValue_of rootPath fullScaleFiles 490),
            case snd (targetValue_of rootPath fullScaleFiles 490) of
              Inl e \<Rightarrow> Inl e
            | Inr targetValue \<Rightarrow>
                Inr ([490], Paired [[circularWindow (MFCC longClip) a],
                                    [circularWindow (MFCC longClip) b]],
                     map (map (\<lambda>x. x * 0.5)) targetValue))"
    using assms by (intro getitem_training [where s = s]) (simp_all add: longClip_facts)
  then show ?thesis by (simp add: targetValue_of_fullScale)
qed

text \<open>
  The jitter can change the distance of the two windows. A waveform of 524512 samples
  has 982 frames and 16384 feature rows; at index 490 the windows are at 8175 and 8191
  without jitter, 16 rows apart, and at 8176 and 8193 with the jitter 1, 17 rows apart:
  the position of frame 491 is the double just below 8192, and adding 1 rounds to 8193.
\<close>

theorem getitem_jitter_spacing_counterexample:
  "shiftRandom longClip \<and> \<not> preview longClip \<and> count longClip = 982 \<and> MFCCLen longClip = 16384
   \<and> getitem longClip rootPath fullScaleFiles zeroDraws 490 =
       (zeroDraws, [maskPath rootPath 491, maskPath rootPath 492],
        Inr ([490], Paired [[circularWindow (MFCC longClip) 8175],
                            [circularWindow (MFCC longClip) 8191]],
             [replicate OUTPUT_COUNT 1, replicate OUTPUT_COUNT 1]))
   \<and> getitem longClip rootPath fullScaleFiles oneDraws 490 =
       (oneDraws, [maskPath rootPath 491, maskPath rootPath 492],
        Inr ([490], Paired [[circularWindow (MFCC longClip) 8176],
                            [circularWindow (MFCC longClip) 8193]],
             [replicate OUTPUT_COUNT 1, replicate OUTPUT_COUNT 1]))
   \<and> (8191::int) - 8175 \<noteq> 8193 - 8176"
  using getitem_longClip [OF randint_zeroDraws audioIdx_longClip(1,2)]
    getitem_longClip [OF randint_oneDraws audioIdx_longClip(3,4)]
  by (simp add: longClip_facts)

section \<open>The frame count\<close>

lemma dval_mul:
  assumes "0 < snd x" "0 < snd y"
  shows "real_of_int (fst x * fst y) / real_of_int (snd x * snd y) = dval x * dval y"
  by (simp add: dval_def)

lemma rel_upper:
  assumes "\<bar>v - x\<bar> \<le> x / 2 ^ 53"
  shows "v \<le> x * (1 + 1 / 2 ^ 53)" and "x * (1 - 1 / 2 ^ 53) \<le> (v::real)"
  using assms unfolding abs_le_iff by (simp_all add: field_simps)

text \<open>Three roundings in a row keep a product within \<open>2 ^ - 51\<close> of its value.\<close>

lemma product_error:
  fixes A D V \<alpha> d :: real
  assumes "0 \<le> \<alpha>" "0 \<le> d"
    and "\<bar>A - \<alpha>\<bar> \<le> \<alpha> / 2 ^ 53" and "\<bar>D - d\<bar> \<le> d / 2 ^ 53"
    and "\<bar>V - A * D\<bar> \<le> A * D / 2 ^ 53"
  shows "\<bar>V - \<alpha> * d\<bar> \<le> \<alpha> * d / 2 ^ 51"
proof -
  define u :: real where "u = 1 / 2 ^ 53"
  have u: "0 \<le> 1 - u" "0 \<le> 1 + u" by (simp_all add: u_def)
  have A: "A \<le> \<alpha> * (1 + u)" "\<alpha> * (1 - u) \<le> A"
    using rel_upper [OF assms(3)] by (simp_all add: u_def)
  have D: "D \<le> d * (1 + u)" "d * (1 - u) \<le> D"
    using rel_upper [OF assms(4)] by (simp_all add: u_def)
  have V: "V \<le> (A * D) * (1 + u)" "(A * D) * (1 - u) \<le> V"
    using rel_upper [OF assms(5)] by (simp_all add: u_def)
  have A0: "0 \<le> A" using A(2) assms(1) u(1) by (meson mult_nonneg_nonneg order_trans)
  have D0: "0 \<le> D" using D(2) assms(2) u(1) by (meson mult_nonneg_nonneg order_trans)
  have c: "0 \<le> \<alpha> * d" using assms(1,2) by simp
  have "A * D \<le> (\<alpha> * (1 + u)) * (d * (1 + u))"
    using A(1) D(1) A0 D0 by (intro mult_mono) (simp_all add: assms u)
  then have "(A * D) * (1 + u) \<le> ((\<alpha> * (1 + u)) * (d * (1 + u))) * (1 + u)"
    using u(2) by (rule mult_right_mono)
  also have "\<dots> = (\<alpha> * d) * ((1 + u) * (1 + u) * (1 + u))" by (simp add: algebra_simps)
  also have "\<dots> \<le> (\<alpha> * d) * (1 + 1 / 2 ^ 51)"
    using c by (intro mult_left_mono) (simp_all add: u_def)
  finally have up: "V \<le> (\<alpha> * d) * (1 + 1 / 2 ^ 51)" using V(1) by simp
  have "0 \<le> d * (1 - u)" using assms(2) u(1) by simp
  then have "(\<alpha> * (1 - u)) * (d * (1 - u)) \<le> A * D"
    using A(2) D(2) A0 by (intro mult_mono)
  then have "((\<alpha> * (1 - u)) * (d * (1 - u))) * (1 - u) \<le> (A * D) * (1 - u)"
    using u(1) by (rule mult_right_mono)
  moreover have "((\<alpha> * (1 - u)) * (d * (1 - u))) * (1 - u) =
      (\<alpha> * d) * ((1 - u) * (1 - u) * (1 - u))" by (simp add: algebra_simps)
  moreover have "(\<alpha> * d) * (1 - 1 / 2 ^ 51) \<le> (\<alpha> * d) * ((1 - u) * (1 - u) * (1 - u))"
    using c by (intro mult_left_mono) (simp_all add: u_def)
  ultimately have lo: "(\<alpha> * d) * (1 - 1 / 2 ^ 51) \<le> V" using V(2) by simp
  define c where "c = \<alpha> * d"
  have "V \<le> c * (1 + 1 / 2 ^ 51)" "c * (1 - 1 / 2 ^ 51) \<le> V"
    using up lo by (simp_all only: c_def)
  then have "\<bar>V - c\<bar> \<le> c / 2 ^ 51"
    unfolding abs_le_iff by (simp add: field_simps)
  then show ?thesis by (simp only: c_def)
qed

text \<open>
  C4 (amended). For every loaded waveform the frame count is the product of the
  animation rate 29.97 and the duration in seconds (the number of samples at 16 kHz,
  after resampling when the file has another rate, over 16000), computed in double
  precision and truncated to an integer: the greatest integer not above the product,
  not the nearest one. The double product is within \<open>2 ^ - 51\<close> of the exact one,
  relatively.
\<close>

theorem Data_init_count_truncates:
  "count (Data_init shiftRandomArg validationAudioPath (n, r) resample mfcc) =
     \<lfloor>dval (float_mul animFPS (fl_div (int (if r \<noteq> 16000 then resample r n else n)) 16000))\<rfloor>
   \<and> \<bar>dval (float_mul animFPS (fl_div (int (if r \<noteq> 16000 then resample r n else n)) 16000))
        - 29.97 * (real (if r \<noteq> 16000 then resample r n else n) / 16000)\<bar>
       \<le> 29.97 * (real (if r \<noteq> 16000 then resample r n else n) / 16000) / 2 ^ 51"
proof -
  define m where "m = (if r \<noteq> 16000 then resample r n else n)"
  define D where "D = fl_div (int m) 16000"
  define V where "V = float_mul animFPS D"
  have A: "0 \<le> fst animFPS" "0 < snd animFPS"
    using fl_div_nonneg [of 2997 100] by (simp_all add: animFPS_def)
  have D: "0 \<le> fst D" "0 < snd D"
    using fl_div_nonneg [of "int m" 16000] by (simp_all add: D_def)
  have V: "0 \<le> fst V" "0 < snd V"
    unfolding V_def float_mul_def using A D by (intro fl_div_nonneg; simp)+
  have eA: "\<bar>dval animFPS - 29.97\<bar> \<le> 29.97 / 2 ^ 53"
    using fl_div_error [of 2997 100] by (simp add: animFPS_def)
  have eD: "\<bar>dval D - real m / 16000\<bar> \<le> (real m / 16000) / 2 ^ 53"
    using fl_div_error [of "int m" 16000] by (simp add: D_def)
  have "\<bar>dval V - real_of_int (fst animFPS * fst D) / real_of_int (snd animFPS * snd D)\<bar>
          \<le> (real_of_int (fst animFPS * fst D) / real_of_int (snd animFPS * snd D)) / 2 ^ 53"
    unfolding V_def float_mul_def using A D by (intro fl_div_error) simp_all
  then have eV: "\<bar>dval V - dval animFPS * dval D\<bar> \<le> dval animFPS * dval D / 2 ^ 53"
    by (simp only: dval_mul [OF A(2) D(2)])
  have "\<bar>dval V - 29.97 * (real m / 16000)\<bar> \<le> 29.97 * (real m / 16000) / 2 ^ 51"
    using _ _ eA eD eV by (rule product_error) simp_all
  moreover have "count (Data_init shiftRandomArg validationAudioPath (n, r) resample mfcc) = \<lfloor>dval V\<rfloor>"
    using py_int_floor [OF V] by (simp add: count_init V_def D_def m_def)
  ultimately show ?thesis
    by (simp only: V_def D_def m_def)
qed

text \<open>
  A waveform of one second has 29 frames, and 29.97 rounded to the nearest integer
  is 30.
\<close>

theorem Data_init_count_counterexample:
  "count oneSecond = 29 \<and> round (29.97 * (real 16000 / 16000)) = 30
   \<and> count oneSecond \<noteq> round (29.97 * (real 16000 / 16000))"
  by (simp add: oneSecond_count round_def)

section \<open>Checkpoints\<close>










lemma checkpointPath_example:
  "checkpointPath exampleModelDir exampleRunStr 50 =
     ''/home/user/sandbox/surat/model/26_11_04_12_00_00/26_11_04_12_00_00_E00050.pth''"
  "checkpointPath exampleModelDir exampleRunStr 100 =
     ''/home/user/sandbox/surat/model/26_11_04_12_00_00/26_11_04_12_00_00_E00100.pth''"
  "finalPath exampleModelDir exampleRunStr =
     ''/home/user/sandbox/surat/model/26_11_04_12_00_00/26_11_04_12_00_00_fin.pth''"
  by (simp_all add: checkpointPath_def finalPath_def os_path_join_def path_join2_def
      format_05d_zero_padded5 zero_padded5_def exampleModelDir_def exampleRunStr_def)

lemma train_100_epochs:
  "train 100 countingEpoch exampleModelDir exampleRunStr 0 =
     ([(checkpointPath exampleModelDir exampleRunStr 50, 50),
       (checkpointPath exampleModelDir exampleRunStr 100, 100),
       (finalPath exampleModelDir exampleRunStr, 100)], Inr 100)"
  by code_simp

section \<open>The motion loss\<close>

lemma length_chunks: "length (chunks n xs) = length xs div n"
  by (simp add: chunks_def)

lemma nth_chunks: "k < length xs div n \<Longrightarrow> chunks n xs ! k = take n (drop (k * n) xs)"
  by (simp add: chunks_def)

lemma shape2_frame0:
  assumes "shape2 rows (2 * B, n)"
  shows "shape2 (frame 0 (chunks 2 rows)) (B, n)"
proof -
  have len: "length rows = 2 * B" and rows: "\<And>r. r \<in> set rows \<Longrightarrow> length r = n"
    using assms by (simp_all add: shape2_def list_all_iff)
  have "length (frame 0 (chunks 2 rows) ! k) = n" if "k < B" for k
  proof -
    have k2: "k * 2 < length rows" using that len by simp
    have "chunks 2 rows ! k = take 2 (drop (k * 2) rows)"
      using that len by (simp add: nth_chunks)
    then have "chunks 2 rows ! k ! 0 = rows ! (k * 2)"
      using k2 by simp
    then have "frame 0 (chunks 2 rows) ! k = rows ! (k * 2)"
      using that len by (simp add: frame_def length_chunks)
    then show ?thesis using rows k2 by simp
  qed
  then have "\<forall>r \<in> set (frame 0 (chunks 2 rows)). length r = n"
    using len by (auto simp: in_set_conv_nth frame_def length_chunks)
  then show ?thesis
    using len by (simp add: shape2_def list_all_iff frame_def length_chunks)
qed

lemma map2_same: "map2 f xs xs = map (\<lambda>x. f x x) xs"
  by (simp add: zip_same_conv_map)

lemma tensor_sub_self:
  assumes "shape2 x (B, n)"
  shows "tensor_sub x x = Inr (replicate B (replicate n 0))"
proof -
  have len: "length x = B" and rows: "\<And>r. r \<in> set x \<Longrightarrow> length r = n"
    using assms by (simp_all add: shape2_def list_all_iff)
  have "map2 (map2 (\<lambda>u v. u - v)) x x = map (\<lambda>r. map (\<lambda>u. u - u) r) x"
    by (simp add: map2_same)
  also have "\<dots> = map (\<lambda>r. replicate n (0::real)) x"
    using rows by (intro map_cong) (simp_all add: map_replicate_const)
  also have "\<dots> = replicate B (replicate n 0)"
    using len by (simp add: map_replicate_const)
  finally show ?thesis by (simp add: tensor_sub_def)
qed

lemma MSE_zeros:
  "MSENoReductionCriterion (replicate B (replicate n 0)) (replicate B (replicate n 0)) =
     Inr (replicate B (replicate n 0))"
  by (simp add: MSENoReductionCriterion_def map2_same)

lemma mean_zeros: "0 < B \<Longrightarrow> torch_mean (torch_sum_last (replicate B (replicate n 0))) = Some 0"
  by (simp add: torch_mean_def torch_sum_last_def sum_list_replicate)

text \<open>
  C9. For every batch, of at least one pair, in which the result for the second frame
  of each pair equals the result for the first, and likewise the target, the motion
  loss is exactly zero, whatever the results and the targets are. Over the reals.
\<close>

theorem motionLoss_zero:
  assumes "shape2 modelResult (2 * B, n)" and "shape2 target (2 * B, n)" and "0 < B"
    and "framesEqual modelResult" and "framesEqual target"
  shows "motionLoss modelResult target = Inr (Some 0)"
proof -
  have even: "\<not> odd (length modelResult)" "\<not> odd (length target)"
    using assms(1,2) by (simp_all add: shape2_def)
  have m: "tensor_sub (frame 1 (chunks 2 modelResult)) (frame 0 (chunks 2 modelResult)) =
             Inr (replicate B (replicate n 0))"
    using assms(4) shape2_frame0 [OF assms(1)] by (simp add: framesEqual_def tensor_sub_self)
  have t: "tensor_sub (frame 1 (chunks 2 target)) (frame 0 (chunks 2 target)) =
             Inr (replicate B (replicate n 0))"
    using assms(5) shape2_frame0 [OF assms(2)] by (simp add: framesEqual_def tensor_sub_self)
  show ?thesis
    using even assms(3)
    unfolding motionLoss_def pairView_def
    by (simp add: m t MSE_zeros mean_zeros del: One_nat_def)
qed

lemma chunks2_pair: "chunks 2 [a, b] = [[a, b]]"
  by (simp add: chunks_def)

text \<open>
  The theorem on a batch of one pair whose result is far from its target: the shape
  loss is 5 and the motion loss 0.
\<close>

theorem motionLoss_zero_witness:
  "shape2 exampleResult (2 * 1, 2) \<and> shape2 exampleTarget (2 * 1, 2) \<and> (0::nat) < 1
   \<and> framesEqual exampleResult \<and> framesEqual exampleTarget
   \<and> motionLoss exampleResult exampleTarget = Inr (Some 0)
   \<and> shapeLoss exampleResult exampleTarget = Inr (Some 5)"
proof -
  have h: "shape2 exampleResult (2 * 1, 2)" "shape2 exampleTarget (2 * 1, 2)" "(0::nat) < 1"
    "framesEqual exampleResult" "framesEqual exampleTarget"
    by (simp_all add: shape2_def exampleResult_def exampleTarget_def framesEqual_def
        chunks2_pair frame_def)
  have "shapeLoss exampleResult exampleTarget = Inr (Some 5)"
    by (simp add: shapeLoss_def pairView_def exampleResult_def exampleTarget_def chunks2_pair
        frame_def MSENoReductionCriterion_def torch_sum_last_def torch_mean_def)
  then show ?thesis
    using h motionLoss_zero [OF h] by blast
qed

section \<open>The encoder's output shape\<close>

text \<open>
  C6 (amended). For every batch size and in either mode, the encoder's five convolution
  blocks, of channel widths 72, 108, 162, 243 and 256, map an input of shape
  (batch, 1, 64, 32) to a latent of shape (batch, 256, 64, 1): the first four blocks
  reduce the trailing axis of extent 32 to 16, 8, 4 and 2, the final block collapses it
  to 1, and the axis of extent 64 is left as it is. A block is three layers of the 15.
\<close>

theorem formantAnalysis_shape:
  "sequential_shape training (take 3 formantAnalysis) (b, 1, 64, 32) = Inr (b, 72, 64, 16)
   \<and> sequential_shape training (take 6 formantAnalysis) (b, 1, 64, 32) = Inr (b, 108, 64, 8)
   \<and> sequential_shape training (take 9 formantAnalysis) (b, 1, 64, 32) = Inr (b, 162, 64, 4)
   \<and> sequential_shape training (take 12 formantAnalysis) (b, 1, 64, 32) = Inr (b, 243, 64, 2)
   \<and> sequential_shape training (drop 12 formantAnalysis) (b, 243, 64, 2) = Inr (b, 256, 64, 1)
   \<and> sequential_shape training formantAnalysis (b, 1, 64, 32) = Inr (b, 256, 64, 1)
   \<and> length formantAnalysis = 15
   \<and> conv_channels formantAnalysis = [72, 108, 162, 243, 256]"
  by (simp add: formantAnalysis_def conv_out_def)

text \<open>
  The shape (batch, 256, 1, 1) is not what the encoder returns, already for a batch
  of one tile.
\<close>

theorem formantAnalysis_shape_counterexample:
  "sequential_shape True formantAnalysis (1, 1, 64, 32) \<noteq> Inr (1, 256, 1, 1)"
  by (simp add: formantAnalysis_def conv_out_def)

end
